theory Spec2Isabelle
  imports Complex_Main "HOL-Library.Word" "HOL-Library.Multiset" "HOL-Library.Log_Nat"
begin

unbundle bit_operations_syntax

section \<open>Numbers, assertions and loops\<close>

subsection \<open>Two arithmetics for \<open>double\<close>\<close>

text \<open>
  The functions \<open>transform_real_to_unit_cell\<close> for one dimension and
  \<open>compute_shape_function_values\<close> are written over an arithmetic \<open>ar\<close>: the operations
  \<open>+\<close>, \<open>-\<close>, \<open>*\<close>, \<open>/\<close> and unary \<open>-\<close> of the type that stands for \<open>double\<close>, and
  the conversion of an integer literal. The source text is the same for every arithmetic;
  what an expression evaluates to depends on it.
\<close>

record 'a arithmetic =
  fp_add :: "'a \<Rightarrow> 'a \<Rightarrow> 'a"
  fp_sub :: "'a \<Rightarrow> 'a \<Rightarrow> 'a"
  fp_mul :: "'a \<Rightarrow> 'a \<Rightarrow> 'a"
  fp_div :: "'a \<Rightarrow> 'a \<Rightarrow> 'a"
  fp_neg :: "'a \<Rightarrow> 'a"
  fp_of_int :: "int \<Rightarrow> 'a"

text \<open>
  The exact arithmetic of the real numbers. It has no rounding, no overflow, no infinities
  and no NaN.
\<close>

definition exact_arithmetic :: "real arithmetic" where
  "exact_arithmetic =
     \<lparr>fp_add = (+), fp_sub = (-), fp_mul = (*), fp_div = (/), fp_neg = uminus,
       fp_of_int = of_int\<rparr>"

text \<open>
  The arithmetic of the machine: IEEE 754 binary64 with the rounding direction
  roundTiesToEven, every operation rounded once (no extended precision, no contraction of
  a product and a sum). A value is finite with a sign and a magnitude, an infinity with a
  sign, or a NaN: \<open>Finite s x\<close> has the magnitude \<open>x\<close> and is negative when \<open>s\<close>
  holds, and \<open>Infinity s\<close> is negative when \<open>s\<close> holds. The sign of a finite value is
  kept apart from its magnitude because zero has one. The magnitude of a finite value of
  the machine is \<open>m * 2 ^ e\<close> with \<open>m < 2 ^ 53\<close> and \<open>- 1074 \<le> e \<le> 971\<close>; the
  operations below return such values.
\<close>

datatype binary64 = Finite bool rat | Infinity bool | NaN

text \<open>
  \<open>pow2 k\<close> is \<open>2 ^ k\<close> for an integer \<open>k\<close>, and \<open>floor_log2 q\<close> is the integer \<open>k\<close>
  with \<open>2 ^ k \<le> q < 2 ^ (k + 1)\<close> for a positive rational \<open>q\<close>, computed from the bit
  lengths of numerator and denominator.
\<close>

definition pow2 :: "int \<Rightarrow> rat" where
  "pow2 k = (if 0 \<le> k then 2 ^ nat k else 1 / 2 ^ nat (- k))"

definition floor_log2 :: "rat \<Rightarrow> int" where
  "floor_log2 q =
     (case quotient_of q of (n, d) \<Rightarrow>
        let k = bitlen n - bitlen d in if pow2 k \<le> q then k else k - 1)"

text \<open>
  Rounding of a magnitude: to the nearest integer multiple of \<open>2 ^ e\<close>, where \<open>e\<close> is the
  exponent of the last of the 53 bits (for subnormal results \<open>- 1074\<close>), a tie going to the
  even multiple. A result of \<open>2 ^ 1024\<close> or more is an overflow, written \<open>None\<close>, and
  \<open>round_binary64\<close> makes it an infinity. \<open>with_sign s x\<close> is the number with the
  magnitude \<open>x\<close> that is negative when \<open>s\<close> holds.
\<close>

definition round_half_even :: "rat \<Rightarrow> int" where
  "round_half_even q =
     (let f = \<lfloor>q\<rfloor>; r = q - of_int f
      in if r > 1 / 2 \<or> (r = 1 / 2 \<and> odd f) then f + 1 else f)"

definition round_magnitude :: "rat \<Rightarrow> rat option" where
  "round_magnitude q =
     (if q = 0 then Some 0
      else
        let e = max (floor_log2 q - 52) (- 1074);
            v = of_int (round_half_even (q / pow2 e)) * pow2 e
        in if pow2 1024 \<le> v then None else Some v)"

definition round_binary64 :: "bool \<Rightarrow> rat \<Rightarrow> binary64" where
  "round_binary64 negative q =
     (case round_magnitude q of None \<Rightarrow> Infinity negative | Some v \<Rightarrow> Finite negative v)"

definition with_sign :: "bool \<Rightarrow> rat \<Rightarrow> rat" where
  "with_sign negative x = (if negative then - x else x)"

text \<open>
  The operations. A sum that is exactly zero is \<open>+0\<close> unless both summands are \<open>-0\<close>;
  \<open>x - y\<close> is \<open>x + (- y)\<close>; the sign of a product or quotient is the exclusive or of
  the signs; \<open>inf - inf\<close>, \<open>0 * inf\<close>, \<open>0 / 0\<close> and \<open>inf / inf\<close> are NaN, and a
  nonzero finite value divided by zero is an infinity.
\<close>

fun binary64_neg :: "binary64 \<Rightarrow> binary64" where
  "binary64_neg (Finite s x) = Finite (\<not> s) x"
| "binary64_neg (Infinity s) = Infinity (\<not> s)"
| "binary64_neg NaN = NaN"

fun binary64_add :: "binary64 \<Rightarrow> binary64 \<Rightarrow> binary64" where
  "binary64_add (Finite s x) (Finite t y) =
     (let r = with_sign s x + with_sign t y
      in if r = 0 then Finite (s \<and> t) 0 else round_binary64 (r < 0) \<bar>r\<bar>)"
| "binary64_add (Finite s x) (Infinity t) = Infinity t"
| "binary64_add (Infinity s) (Finite t y) = Infinity s"
| "binary64_add (Infinity s) (Infinity t) = (if s = t then Infinity s else NaN)"
| "binary64_add NaN b = NaN"
| "binary64_add a NaN = NaN"

definition binary64_sub :: "binary64 \<Rightarrow> binary64 \<Rightarrow> binary64" where
  "binary64_sub a b = binary64_add a (binary64_neg b)"

fun binary64_mul :: "binary64 \<Rightarrow> binary64 \<Rightarrow> binary64" where
  "binary64_mul (Finite s x) (Finite t y) = round_binary64 (s \<noteq> t) (x * y)"
| "binary64_mul (Finite s x) (Infinity t) = (if x = 0 then NaN else Infinity (s \<noteq> t))"
| "binary64_mul (Infinity s) (Finite t y) = (if y = 0 then NaN else Infinity (s \<noteq> t))"
| "binary64_mul (Infinity s) (Infinity t) = Infinity (s \<noteq> t)"
| "binary64_mul NaN b = NaN"
| "binary64_mul a NaN = NaN"

fun binary64_div :: "binary64 \<Rightarrow> binary64 \<Rightarrow> binary64" where
  "binary64_div (Finite s x) (Finite t y) =
     (if y = 0 then (if x = 0 then NaN else Infinity (s \<noteq> t))
      else round_binary64 (s \<noteq> t) (x / y))"
| "binary64_div (Finite s x) (Infinity t) = Finite (s \<noteq> t) 0"
| "binary64_div (Infinity s) (Finite t y) = Infinity (s \<noteq> t)"
| "binary64_div (Infinity s) (Infinity t) = NaN"
| "binary64_div NaN b = NaN"
| "binary64_div a NaN = NaN"

definition binary64_of_int :: "int \<Rightarrow> binary64" where
  "binary64_of_int n = round_binary64 (n < 0) \<bar>of_int n\<bar>"

definition binary64_arithmetic :: "binary64 arithmetic" where
  "binary64_arithmetic =
     \<lparr>fp_add = binary64_add, fp_sub = binary64_sub, fp_mul = binary64_mul,
       fp_div = binary64_div, fp_neg = binary64_neg, fp_of_int = binary64_of_int\<rparr>"

subsection \<open>\<open>double\<close> as a real number\<close>

text \<open>
  In all other functions the C++ type \<open>double\<close> is modelled by the real numbers: every
  arithmetic operation is exact. Rounding, overflow, infinities and NaN are outside this
  model. Where the source divides by a value that can be zero, the model says so
  explicitly instead of relying on the HOL convention \<open>x / 0 = 0\<close>. Indices and sizes
  (\<open>unsigned int\<close>, \<open>long int\<close>, \<open>std::size_t\<close>) are natural numbers or integers
  without a bound, except for the one cast to \<open>unsigned int\<close> in
  \<open>SparseDirectUMFPACK::factorize\<close>, which is written out.
\<close>

type_synonym double = real

subsection \<open>Assertions and loops\<close>

text \<open>
  The macro \<open>Assert (cond, exc)\<close> of a debug build: the function is left with the
  exception \<open>exc\<close> when \<open>cond\<close> is false. A function that contains an assertion
  returns a value of \<open>dealii_exception + 'a\<close>, and \<open>Inl\<close> carries the exception.
  \<open>and_then\<close> runs the rest of a function after a part that may have failed, and
  \<open>for_each\<close> is a \<open>for\<close> loop whose body may fail.
\<close>

datatype dealii_exception =
    ExcInternalError
  | ExcNotQuadratic
  | ExcDimensionMismatch nat nat
  | ExcDistortedMappedCell nat
  | ExcMessage
  | ExcInitializeAlreadyCalled

definition Assert :: "bool \<Rightarrow> dealii_exception \<Rightarrow> dealii_exception + 'a \<Rightarrow> dealii_exception + 'a" where
  "Assert cond exc rest = (if cond then rest else Inl exc)"

definition and_then :: "dealii_exception + 'a \<Rightarrow> ('a \<Rightarrow> dealii_exception + 'b) \<Rightarrow> dealii_exception + 'b" where
  "and_then r f = (case r of Inl e \<Rightarrow> Inl e | Inr x \<Rightarrow> f x)"

fun for_each :: "'a list \<Rightarrow> ('a \<Rightarrow> 's \<Rightarrow> dealii_exception + 's) \<Rightarrow> 's \<Rightarrow> dealii_exception + 's" where
  "for_each [] body s = Inr s"
| "for_each (x # xs) body s = and_then (body x s) (for_each xs body)"

text \<open>
  A loop without assertions is a \<open>fold\<close> over its index range. \<open>for_ij\<close> is the
  nest \<open>for (i = 0; i < n_i; ++i) for (j = 0; j < n_j; ++j) body\<close>, and
  \<open>set_entry A i j v\<close> is the assignment \<open>A[i][j] = v\<close> to a two-dimensional array.
\<close>

definition set_entry :: "double list list \<Rightarrow> nat \<Rightarrow> nat \<Rightarrow> double \<Rightarrow> double list list" where
  "set_entry A i j v = A[i := (A ! i)[j := v]]"

definition for_ij ::
  "nat \<Rightarrow> nat \<Rightarrow> (nat \<Rightarrow> nat \<Rightarrow> 's \<Rightarrow> 's) \<Rightarrow> 's \<Rightarrow> 's" where
  "for_ij n_i n_j body s = fold (\<lambda>i s. fold (\<lambda>j s. body i j s) [0..<n_j] s) [0..<n_i] s"

section \<open>source/fe/mapping\_q\_generic.cc\<close>

subsection \<open>Points and tensors\<close>

text \<open>
  \<open>Point<1>\<close>, \<open>Point<2>\<close> and \<open>Point<3>\<close> of the functions that are written for
  one fixed dimension are a number, a pair and a triple. In the functions that are templates
  over \<open>dim\<close> and \<open>spacedim\<close> a point or a \<open>Tensor<1,dim>\<close> is the list of its
  components, and a \<open>DerivativeForm<1,dim,spacedim>\<close> is the list of its \<open>spacedim\<close>
  rows of \<open>dim\<close> entries each. The template parameters are arguments \<open>dim_t\<close> and
  \<open>spacedim\<close> of the model.
\<close>

type_synonym Point2 = "double \<times> double"

type_synonym Point = "double list"

type_synonym Tensor1 = "double list"

type_synonym DerivativeForm1 = "double list list"

type_synonym Vertices2 = "Point2 \<times> Point2 \<times> Point2 \<times> Point2"

subsection \<open>\<open>transform_real_to_unit_cell\<close> in one dimension\<close>

text \<open>
  The function asserts \<open>spacedim == 1\<close>, which the types of the model build in, and
  returns \<open>(p[0] - vertices[0](0)) / (vertices[1](0) - vertices[0](0))\<close> in the
  arithmetic \<open>ar\<close>. The pair \<open>vertices\<close> is the array of the two vertices of the cell.
\<close>

definition transform_real_to_unit_cell_1d :: "'a arithmetic \<Rightarrow> 'a \<times> 'a \<Rightarrow> 'a \<Rightarrow> 'a" where
  "transform_real_to_unit_cell_1d ar vertices p =
     fp_div ar (fp_sub ar p (fst vertices)) (fp_sub ar (snd vertices) (fst vertices))"

text \<open>
  The forward map of a line cell, \<open>(1. - t) * v0 + t * v1\<close> in the arithmetic \<open>ar\<close>: the
  two linear shape functions \<open>1. - x\<close> and \<open>x\<close> of \<open>compute_shape_function_values\<close>
  below are the weights of the two vertices, as in \<open>maybe_compute_q_points\<close>.
\<close>

definition transform_unit_to_real_cell_1d :: "'a arithmetic \<Rightarrow> 'a \<times> 'a \<Rightarrow> 'a \<Rightarrow> 'a" where
  "transform_unit_to_real_cell_1d ar vertices t =
     fp_add ar (fp_mul ar (fp_sub ar (fp_of_int ar 1) t) (fst vertices))
               (fp_mul ar t (snd vertices))"

subsection \<open>\<open>transform_real_to_unit_cell\<close> in two dimensions\<close>

text \<open>
  The local variables of the function are definitions of their own, under the names of the
  source: the coefficients \<open>a\<close>, \<open>b\<close>, \<open>c\<close> of the quadratic for \<open>eta\<close>, the
  \<open>discriminant\<close>, the two candidates \<open>eta1\<close>, \<open>eta2\<close>, and the two ways to compute
  \<open>xi\<close> from \<open>eta\<close>.
\<close>

definition quadratic_coefficients :: "Vertices2 \<Rightarrow> Point2 \<Rightarrow> double \<times> double \<times> double" where
  "quadratic_coefficients vertices p =
     (case vertices of ((x0, y0), (x1, y1), (x2, y2), (x3, y3)) \<Rightarrow>
      case p of (x, y) \<Rightarrow>
        ((x1 - x3) * (y0 - y2) - (x0 - x2) * (y1 - y3),
         - (x0 - x1 - x2 + x3) * y + (x - 2 * x1 + x3) * y0 - (x - 2 * x0 + x2) * y1
           - (x - x1) * y2 + (x - x0) * y3,
         (x0 - x1) * y - (x - x1) * y0 + (x - x0) * y1))"

definition discriminant :: "double \<Rightarrow> double \<Rightarrow> double \<Rightarrow> double" where
  "discriminant a b c = b * b - 4 * a * c"

text \<open>
  The candidates of the branch for small \<open>c / b\<close> (the textbook formula) and of the last
  branch (the numerically stable formula).
\<close>

definition eta_textbook :: "double \<Rightarrow> double \<Rightarrow> double \<Rightarrow> double \<times> double" where
  "eta_textbook a b c =
     ((- b - sqrt (discriminant a b c)) / (2 * a),
      (- b + sqrt (discriminant a b c)) / (2 * a))"

definition eta_stable :: "double \<Rightarrow> double \<Rightarrow> double \<Rightarrow> double \<times> double" where
  "eta_stable a b c =
     (2 * c / (- b - sqrt (discriminant a b c)),
      2 * c / (- b + sqrt (discriminant a b c)))"

text \<open>
  The test \<open>std::abs(c/b) < 1e-12\<close>. For \<open>b = 0\<close> the quotient of two doubles is an
  infinity or a NaN and the comparison is false, which the model writes as \<open>b \<noteq> 0\<close>.
\<close>

definition c_over_b_is_small :: "double \<Rightarrow> double \<Rightarrow> bool" where
  "c_over_b_is_small c b = (b \<noteq> 0 \<and> \<bar>c / b\<bar> < 1 / 10 ^ 12)"

text \<open>
  The three branches that assign \<open>eta1\<close> and \<open>eta2\<close>. In the second branch \<open>a\<close> is
  not zero (\<open>a = 0\<close> and \<open>b \<noteq> 0\<close> is the first branch, and \<open>b = 0\<close> fails the test of
  the second). In the last branch a denominator can be zero; the doubles are then infinities
  or NaN, which the model does not carry: the result is \<open>None\<close> there.
\<close>

definition eta_candidates :: "double \<Rightarrow> double \<Rightarrow> double \<Rightarrow> (double \<times> double) option" where
  "eta_candidates a b c =
     (if a = 0 \<and> b \<noteq> 0 then Some (- c / b, - c / b)
      else if c_over_b_is_small c b then Some (eta_textbook a b c)
      else if - b - sqrt (discriminant a b c) = 0 \<or> - b + sqrt (discriminant a b c) = 0
        then None
      else Some (eta_stable a b c))"

text \<open>The choice \<open>(std::abs(eta1 - 0.5) < std::abs(eta2 - 0.5)) ? eta1 : eta2\<close>.\<close>

definition closer_to_center :: "double \<Rightarrow> double \<Rightarrow> double" where
  "closer_to_center eta1 eta2 = (if \<bar>eta1 - 0.5\<bar> < \<bar>eta2 - 0.5\<bar> then eta1 else eta2)"

definition subexpr0 :: "Vertices2 \<Rightarrow> double \<Rightarrow> double" where
  "subexpr0 vertices eta =
     (case vertices of ((x0, y0), (x1, y1), (x2, y2), (x3, y3)) \<Rightarrow> - eta * x2 + x0 * (eta - 1))"

definition xi_denominator0 :: "Vertices2 \<Rightarrow> double \<Rightarrow> double" where
  "xi_denominator0 vertices eta =
     (case vertices of ((x0, y0), (x1, y1), (x2, y2), (x3, y3)) \<Rightarrow>
        eta * x3 - x1 * (eta - 1) + subexpr0 vertices eta)"

definition max_x :: "Vertices2 \<Rightarrow> double" where
  "max_x vertices =
     (case vertices of ((x0, y0), (x1, y1), (x2, y2), (x3, y3)) \<Rightarrow>
        max (max \<bar>x0\<bar> \<bar>x1\<bar>) (max \<bar>x2\<bar> \<bar>x3\<bar>))"

definition subexpr1 :: "Vertices2 \<Rightarrow> double \<Rightarrow> double" where
  "subexpr1 vertices eta =
     (case vertices of ((x0, y0), (x1, y1), (x2, y2), (x3, y3)) \<Rightarrow> - eta * y2 + y0 * (eta - 1))"

definition xi_denominator1 :: "Vertices2 \<Rightarrow> double \<Rightarrow> double" where
  "xi_denominator1 vertices eta =
     (case vertices of ((x0, y0), (x1, y1), (x2, y2), (x3, y3)) \<Rightarrow>
        eta * y3 - y1 * (eta - 1) + subexpr1 vertices eta)"

definition max_y :: "Vertices2 \<Rightarrow> double" where
  "max_y vertices =
     (case vertices of ((x0, y0), (x1, y1), (x2, y2), (x3, y3)) \<Rightarrow>
        max (max \<bar>y0\<bar> \<bar>y1\<bar>) (max \<bar>y2\<bar> \<bar>y3\<bar>))"

text \<open>
  The function itself. \<open>None\<close> stands for a result outside the real numbers (see
  \<open>eta_candidates\<close>); every other result is the point the source returns. The point
  \<open>(2, 2)\<close> is returned on the fast exit for a negative discriminant and when both
  denominators for \<open>xi\<close> are too small.
\<close>

definition transform_real_to_unit_cell_2d :: "Vertices2 \<Rightarrow> Point2 \<Rightarrow> Point2 option" where
  "transform_real_to_unit_cell_2d vertices p =
     (case quadratic_coefficients vertices p of (a, b, c) \<Rightarrow>
      if discriminant a b c < 0 then Some (2, 2)
      else
        (case eta_candidates a b c of
           None \<Rightarrow> None
         | Some (eta1, eta2) \<Rightarrow>
            let eta = closer_to_center eta1 eta2 in
            if \<bar>xi_denominator0 vertices eta\<bar> > 1 / 10 ^ 10 * max_x vertices
            then Some ((fst p + subexpr0 vertices eta) / xi_denominator0 vertices eta, eta)
            else if \<bar>xi_denominator1 vertices eta\<bar> > 1 / 10 ^ 10 * max_y vertices
            then Some ((subexpr1 vertices eta + snd p) / xi_denominator1 vertices eta, eta)
            else Some (2, 2)))"

subsection \<open>Update flags\<close>

text \<open>
  \<open>UpdateFlags\<close> is an enumeration used as a bit mask; \<open>|\<close> and \<open>&\<close> are the bitwise
  operations on its values and \<open>if (flags & mask)\<close> tests that the conjunction is not zero.
  The enumeration is declared in a header that is not part of the sources at hand, so the
  values of its constants are a parameter \<open>fl\<close> of every function that mentions one. No
  property of the values is assumed unless a theorem says so.
\<close>

type_synonym UpdateFlags = "32 word"

record UpdateFlagValues =
  update_boundary_forms :: UpdateFlags
  update_quadrature_points :: UpdateFlags
  update_JxW_values :: UpdateFlags
  update_normal_vectors :: UpdateFlags
  update_jacobians :: UpdateFlags
  update_jacobian_grads :: UpdateFlags
  update_inverse_jacobians :: UpdateFlags
  update_covariant_transformation :: UpdateFlags
  update_contravariant_transformation :: UpdateFlags
  update_volume_elements :: UpdateFlags
  update_jacobian_pushed_forward_grads :: UpdateFlags
  update_jacobian_2nd_derivatives :: UpdateFlags
  update_jacobian_pushed_forward_2nd_derivatives :: UpdateFlags
  update_jacobian_3rd_derivatives :: UpdateFlags
  update_jacobian_pushed_forward_3rd_derivatives :: UpdateFlags

text \<open>
  \<open>MappingQGeneric::requires_update_flags\<close>: the body of the loop, with the five
  \<open>if\<close> statements in the order of the source, and the loop \<open>for (i = 0; i < 5; ++i)\<close>.
\<close>

definition requires_update_flags_body :: "UpdateFlagValues \<Rightarrow> UpdateFlags \<Rightarrow> UpdateFlags" where
  "requires_update_flags_body fl out0 =
     (let out1 = (if out0 AND (update_JxW_values fl OR update_normal_vectors fl) \<noteq> 0
                  then out0 OR update_boundary_forms fl else out0);
          out2 = (if out1 AND (update_covariant_transformation fl
                               OR update_JxW_values fl
                               OR update_jacobians fl
                               OR update_jacobian_grads fl
                               OR update_boundary_forms fl
                               OR update_normal_vectors fl) \<noteq> 0
                  then out1 OR update_contravariant_transformation fl else out1);
          out3 = (if out2 AND (update_inverse_jacobians fl
                               OR update_jacobian_pushed_forward_grads fl
                               OR update_jacobian_pushed_forward_2nd_derivatives fl
                               OR update_jacobian_pushed_forward_3rd_derivatives fl) \<noteq> 0
                  then out2 OR update_covariant_transformation fl else out2);
          out4 = (if out3 AND update_contravariant_transformation fl \<noteq> 0
                  then out3 OR update_JxW_values fl else out3);
          out5 = (if out4 AND update_normal_vectors fl \<noteq> 0
                  then out4 OR update_JxW_values fl else out4)
      in out5)"

function requires_update_flags_loop :: "UpdateFlagValues \<Rightarrow> nat \<Rightarrow> UpdateFlags \<Rightarrow> UpdateFlags" where
  "requires_update_flags_loop fl i out =
     (if i < 5 then requires_update_flags_loop fl (i + 1) (requires_update_flags_body fl out)
      else out)"
  by pat_completeness auto
termination
  by (relation "measure (\<lambda>(fl, i, out). 5 - i)") auto
declare requires_update_flags_loop.simps [simp del]

definition requires_update_flags :: "UpdateFlagValues \<Rightarrow> UpdateFlags \<Rightarrow> UpdateFlags" where
  "requires_update_flags fl in_flags = requires_update_flags_loop fl 0 in_flags"

subsection \<open>The data of a mapping\<close>

text \<open>
  A cell, as far as the functions below look at it: the triangulation it belongs to and its
  level and index (two cell iterators are equal when these agree), and the values that
  \<open>cell->diameter()\<close>, \<open>cell->direction_flag()\<close> and the virtual function
  \<open>compute_mapping_support_points\<close> return for it. These functions are not part of the
  sources at hand, so their results are fields of the cell.
\<close>

record cell_accessor =
  cell_triangulation :: nat
  cell_level :: int
  cell_index :: int
  cell_diameter :: double
  cell_direction_flag :: bool
  cell_mapping_support_points :: "Point list"

text \<open>
  \<open>MappingQGeneric::InternalData\<close>, with the fields that the functions below read or
  write. The arrays of second and higher derivatives are left out. The type parameter is
  the type that stands for \<open>double\<close>: a \<open>double InternalData\<close> holds real numbers and a
  \<open>binary64 InternalData\<close> holds values of the machine.
\<close>

record 'a InternalData =
  update_each :: UpdateFlags
  n_shape_functions :: nat
  shape_values :: "'a list"
  shape_derivatives :: "'a list list"
  contravariant :: "'a list list list"
  covariant :: "'a list list list"
  volume_elements :: "'a list"
  mapping_support_points :: "'a list list"
  cell_of_current_support_points :: "cell_accessor option"

text \<open>
  Modelled from the spec: the accessors \<open>InternalData::shape\<close> and
  \<open>InternalData::derivative\<close> are defined in the class header, which is missing. They
  return a reference to the entry \<open>qpoint * n_shape_functions + shape_nr\<close> of
  \<open>shape_values\<close> and \<open>shape_derivatives\<close>; this is the layout that the sizes
  \<open>n_shape_functions * n_q_points\<close> in \<open>initialize\<close> and the pointer arithmetic
  \<open>&data.shape(point+data_set,0)\<close>, \<open>shape[k]\<close> in \<open>maybe_compute_q_points\<close> rely on.
  \<open>set_shape\<close> and \<open>set_derivative\<close> are assignments through the returned reference,
  the latter to one component of the tensor.
\<close>

definition shape :: "'a InternalData \<Rightarrow> nat \<Rightarrow> nat \<Rightarrow> 'a" where
  "shape data qpoint shape_nr = shape_values data ! (qpoint * n_shape_functions data + shape_nr)"

definition set_shape :: "'a InternalData \<Rightarrow> nat \<Rightarrow> nat \<Rightarrow> 'a \<Rightarrow> 'a InternalData" where
  "set_shape data qpoint shape_nr v =
     data\<lparr>shape_values := (shape_values data)[qpoint * n_shape_functions data + shape_nr := v]\<rparr>"

definition derivative :: "'a InternalData \<Rightarrow> nat \<Rightarrow> nat \<Rightarrow> 'a list" where
  "derivative data qpoint shape_nr =
     shape_derivatives data ! (qpoint * n_shape_functions data + shape_nr)"

definition set_derivative :: "'a InternalData \<Rightarrow> nat \<Rightarrow> nat \<Rightarrow> nat \<Rightarrow> 'a \<Rightarrow> 'a InternalData" where
  "set_derivative data qpoint shape_nr j v =
     data\<lparr>shape_derivatives :=
       (shape_derivatives data)[qpoint * n_shape_functions data + shape_nr :=
          (derivative data qpoint shape_nr)[j := v]]\<rparr>"

subsection \<open>\<open>compute_shape_function_values\<close> for polynomial degree one\<close>

text \<open>
  The three functions for \<open>dim = 1, 2, 3\<close> share their loop: for every unit point \<open>k\<close>,
  if \<open>shape_values\<close> is not empty its size is asserted and the values are assigned, and
  likewise for \<open>shape_derivatives\<close>. The assignments to the arrays of second to fourth
  derivatives, which follow in the source, are left out with those arrays. The right-hand
  sides of the assignments are evaluated in the arithmetic \<open>ar\<close>; \<open>one\<close> is the literal
  \<open>1.\<close>, a product of three factors is evaluated from the left, and \<open>-y*(1.-z)\<close> is
  the product of \<open>-y\<close> and \<open>1.-z\<close>.
\<close>

definition compute_shape_function_values_loop ::
  "nat \<Rightarrow> nat \<Rightarrow> (nat \<Rightarrow> 'a InternalData \<Rightarrow> 'a InternalData) \<Rightarrow> (nat \<Rightarrow> 'a InternalData \<Rightarrow> 'a InternalData)
     \<Rightarrow> 'a InternalData \<Rightarrow> dealii_exception + 'a InternalData" where
  "compute_shape_function_values_loop n_shape_fns n_points assign_values assign_derivatives data0 =
     for_each [0..<n_points] (\<lambda>k data.
        and_then
          (if length (shape_values data) \<noteq> 0
           then Assert (length (shape_values data) = n_shape_fns * n_points) ExcInternalError
                  (Inr (assign_values k data))
           else Inr data)
          (\<lambda>data.
            if length (shape_derivatives data) \<noteq> 0
            then Assert (length (shape_derivatives data) = n_shape_fns * n_points) ExcInternalError
                   (Inr (assign_derivatives k data))
            else Inr data)) data0"

text \<open>One dimension: \<open>data.shape(k,0) = 1.-x\<close> and so on, in the order of the source.\<close>

definition assign_shape_values_1 ::
  "'a arithmetic \<Rightarrow> nat \<Rightarrow> 'a \<Rightarrow> 'a InternalData \<Rightarrow> 'a InternalData" where
  "assign_shape_values_1 ar k p data =
     (let x = p; one = fp_of_int ar 1 in
      set_shape (set_shape data
        k 0 (fp_sub ar one x))
        k 1 x)"

definition assign_shape_derivatives_1 ::
  "'a arithmetic \<Rightarrow> nat \<Rightarrow> 'a \<Rightarrow> 'a InternalData \<Rightarrow> 'a InternalData" where
  "assign_shape_derivatives_1 ar k p data =
     (let x = p; one = fp_of_int ar 1 in
      set_derivative (set_derivative data
        k 0 0 (fp_neg ar one))
        k 1 0 one)"

definition compute_shape_function_values_1 ::
  "'a arithmetic \<Rightarrow> nat \<Rightarrow> 'a list \<Rightarrow> 'a InternalData
     \<Rightarrow> dealii_exception + 'a InternalData" where
  "compute_shape_function_values_1 ar n_shape_fns unit_points data =
     compute_shape_function_values_loop n_shape_fns (length unit_points)
       (\<lambda>k. assign_shape_values_1 ar k (unit_points ! k))
       (\<lambda>k. assign_shape_derivatives_1 ar k (unit_points ! k)) data"

text \<open>Two dimensions.\<close>

definition assign_shape_values_2 ::
  "'a arithmetic \<Rightarrow> nat \<Rightarrow> 'a \<times> 'a \<Rightarrow> 'a InternalData \<Rightarrow> 'a InternalData" where
  "assign_shape_values_2 ar k p data =
     (let x = fst p; y = snd p; one = fp_of_int ar 1 in
      set_shape (set_shape (set_shape (set_shape data
        k 0 (fp_mul ar (fp_sub ar one x) (fp_sub ar one y)))
        k 1 (fp_mul ar x (fp_sub ar one y)))
        k 2 (fp_mul ar (fp_sub ar one x) y))
        k 3 (fp_mul ar x y))"

definition assign_shape_derivatives_2 ::
  "'a arithmetic \<Rightarrow> nat \<Rightarrow> 'a \<times> 'a \<Rightarrow> 'a InternalData \<Rightarrow> 'a InternalData" where
  "assign_shape_derivatives_2 ar k p data =
     (let x = fst p; y = snd p; one = fp_of_int ar 1 in
      set_derivative (set_derivative (set_derivative (set_derivative
      (set_derivative (set_derivative (set_derivative (set_derivative data
        k 0 0 (fp_sub ar y one))
        k 1 0 (fp_sub ar one y))
        k 2 0 (fp_neg ar y))
        k 3 0 y)
        k 0 1 (fp_sub ar x one))
        k 1 1 (fp_neg ar x))
        k 2 1 (fp_sub ar one x))
        k 3 1 x)"

definition compute_shape_function_values_2 ::
  "'a arithmetic \<Rightarrow> nat \<Rightarrow> ('a \<times> 'a) list \<Rightarrow> 'a InternalData
     \<Rightarrow> dealii_exception + 'a InternalData" where
  "compute_shape_function_values_2 ar n_shape_fns unit_points data =
     compute_shape_function_values_loop n_shape_fns (length unit_points)
       (\<lambda>k. assign_shape_values_2 ar k (unit_points ! k))
       (\<lambda>k. assign_shape_derivatives_2 ar k (unit_points ! k)) data"

text \<open>Three dimensions.\<close>

definition assign_shape_values_3 ::
  "'a arithmetic \<Rightarrow> nat \<Rightarrow> 'a \<times> 'a \<times> 'a \<Rightarrow> 'a InternalData \<Rightarrow> 'a InternalData" where
  "assign_shape_values_3 ar k p data =
     (let x = fst p; y = fst (snd p); z = snd (snd p); one = fp_of_int ar 1 in
      set_shape (set_shape (set_shape (set_shape
      (set_shape (set_shape (set_shape (set_shape data
        k 0 (fp_mul ar (fp_mul ar (fp_sub ar one x) (fp_sub ar one y)) (fp_sub ar one z)))
        k 1 (fp_mul ar (fp_mul ar x (fp_sub ar one y)) (fp_sub ar one z)))
        k 2 (fp_mul ar (fp_mul ar (fp_sub ar one x) y) (fp_sub ar one z)))
        k 3 (fp_mul ar (fp_mul ar x y) (fp_sub ar one z)))
        k 4 (fp_mul ar (fp_mul ar (fp_sub ar one x) (fp_sub ar one y)) z))
        k 5 (fp_mul ar (fp_mul ar x (fp_sub ar one y)) z))
        k 6 (fp_mul ar (fp_mul ar (fp_sub ar one x) y) z))
        k 7 (fp_mul ar (fp_mul ar x y) z))"

definition assign_shape_derivatives_3 ::
  "'a arithmetic \<Rightarrow> nat \<Rightarrow> 'a \<times> 'a \<times> 'a \<Rightarrow> 'a InternalData \<Rightarrow> 'a InternalData" where
  "assign_shape_derivatives_3 ar k p data =
     (let x = fst p; y = fst (snd p); z = snd (snd p); one = fp_of_int ar 1 in
      set_derivative (set_derivative (set_derivative (set_derivative
      (set_derivative (set_derivative (set_derivative (set_derivative
      (set_derivative (set_derivative (set_derivative (set_derivative
      (set_derivative (set_derivative (set_derivative (set_derivative
      (set_derivative (set_derivative (set_derivative (set_derivative
      (set_derivative (set_derivative (set_derivative (set_derivative data
        k 0 0 (fp_mul ar (fp_sub ar y one) (fp_sub ar one z)))
        k 1 0 (fp_mul ar (fp_sub ar one y) (fp_sub ar one z)))
        k 2 0 (fp_mul ar (fp_neg ar y) (fp_sub ar one z)))
        k 3 0 (fp_mul ar y (fp_sub ar one z)))
        k 4 0 (fp_mul ar (fp_sub ar y one) z))
        k 5 0 (fp_mul ar (fp_sub ar one y) z))
        k 6 0 (fp_mul ar (fp_neg ar y) z))
        k 7 0 (fp_mul ar y z))
        k 0 1 (fp_mul ar (fp_sub ar x one) (fp_sub ar one z)))
        k 1 1 (fp_mul ar (fp_neg ar x) (fp_sub ar one z)))
        k 2 1 (fp_mul ar (fp_sub ar one x) (fp_sub ar one z)))
        k 3 1 (fp_mul ar x (fp_sub ar one z)))
        k 4 1 (fp_mul ar (fp_sub ar x one) z))
        k 5 1 (fp_mul ar (fp_neg ar x) z))
        k 6 1 (fp_mul ar (fp_sub ar one x) z))
        k 7 1 (fp_mul ar x z))
        k 0 2 (fp_mul ar (fp_sub ar x one) (fp_sub ar one y)))
        k 1 2 (fp_mul ar x (fp_sub ar y one)))
        k 2 2 (fp_mul ar (fp_sub ar x one) y))
        k 3 2 (fp_mul ar (fp_neg ar x) y))
        k 4 2 (fp_mul ar (fp_sub ar one x) (fp_sub ar one y)))
        k 5 2 (fp_mul ar x (fp_sub ar one y)))
        k 6 2 (fp_mul ar (fp_sub ar one x) y))
        k 7 2 (fp_mul ar x y))"

definition compute_shape_function_values_3 ::
  "'a arithmetic \<Rightarrow> nat \<Rightarrow> ('a \<times> 'a \<times> 'a) list \<Rightarrow> 'a InternalData
     \<Rightarrow> dealii_exception + 'a InternalData" where
  "compute_shape_function_values_3 ar n_shape_fns unit_points data =
     compute_shape_function_values_loop n_shape_fns (length unit_points)
       (\<lambda>k. assign_shape_values_3 ar k (unit_points ! k))
       (\<lambda>k. assign_shape_derivatives_3 ar k (unit_points ! k)) data"

subsection \<open>\<open>maybe_compute_q_points\<close> and \<open>maybe_update_Jacobians\<close>\<close>

text \<open>
  Modelled from the spec: the enumeration \<open>CellSimilarity::Similarity\<close> is declared in a
  missing header; the source compares with \<open>translation\<close> and \<open>inverted_translation\<close>.
\<close>

datatype Similarity = none | translation | inverted_translation | invalid_next_cell

text \<open>
  The functions of the tensor classes that the code calls and that are not part of the
  sources at hand are a parameter \<open>ops\<close>: \<open>DerivativeForm::determinant()\<close>,
  \<open>determinant\<close> of a \<open>Tensor<2,dim>\<close>, the product \<open>*\<close> of two \<open>Tensor<1,spacedim>\<close>,
  \<open>covariant_form()\<close>, \<open>transpose()\<close>, the two \<open>cross_product\<close> functions and
  \<open>norm()\<close>. Nothing is assumed about them.
\<close>

record TensorFunctions =
  determinant :: "DerivativeForm1 \<Rightarrow> double"
  determinant_of_tensor :: "double list list \<Rightarrow> double"
  scalar_product :: "Tensor1 \<Rightarrow> Tensor1 \<Rightarrow> double"
  covariant_form :: "DerivativeForm1 \<Rightarrow> DerivativeForm1"
  transpose_form :: "DerivativeForm1 \<Rightarrow> DerivativeForm1"
  cross_product_1 :: "Tensor1 \<Rightarrow> Tensor1"
  cross_product_2 :: "Tensor1 \<Rightarrow> Tensor1 \<Rightarrow> Tensor1"
  norm_of :: "Tensor1 \<Rightarrow> double"

text \<open>
  \<open>internal::FEValues::MappingRelatedData\<close>, with the fields that \<open>fill_fe_values\<close>
  writes up to the copy of the inverse Jacobians.
\<close>

record MappingRelatedData =
  quadrature_points :: "Point list"
  JxW_values :: "double list"
  normal_vectors :: "Tensor1 list"
  jacobians :: "DerivativeForm1 list"
  inverse_jacobians :: "DerivativeForm1 list"

definition maybe_compute_q_points ::
  "UpdateFlagValues \<Rightarrow> nat \<Rightarrow> nat \<Rightarrow> double InternalData \<Rightarrow> Point list \<Rightarrow> Point list" where
  "maybe_compute_q_points fl spacedim data_set data quadrature_points0 =
     (let update_flags = update_each data in
      if update_flags AND update_quadrature_points fl \<noteq> 0
      then fold (\<lambda>point quadrature_points.
             let result0 = map (\<lambda>x. shape data (point + data_set) 0 * x)
                             (mapping_support_points data ! 0);
                 result = fold (\<lambda>k result.
                            fold (\<lambda>i result.
                              result[i := result ! i
                                 + shape data (point + data_set) k * (mapping_support_points data ! k ! i)])
                              [0..<spacedim] result)
                            [1..<n_shape_functions data] result0
             in quadrature_points[point := result])
             [0..<length quadrature_points0] quadrature_points0
      else quadrature_points0)"

text \<open>
  The array \<open>double result [spacedim][dim]\<close> that \<open>maybe_update_Jacobians\<close> computes
  for one quadrature point: the first summand is assigned, the summands for
  \<open>k = 1, ..., n_shape_functions - 1\<close> are added. \<open>data_derv\<close> is
  \<open>&data.derivative(point+data_set, 0)\<close> and \<open>supp_pts\<close> is
  \<open>&data.mapping_support_points[0]\<close>.
\<close>

definition contravariant_result :: "nat \<Rightarrow> nat \<Rightarrow> double InternalData \<Rightarrow> nat \<Rightarrow> double list list" where
  "contravariant_result dim_t spacedim data qpoint =
     (let data_derv = derivative data qpoint;
          supp_pts = (\<lambda>k. mapping_support_points data ! k);
          result0 = replicate spacedim (replicate dim_t 0);
          result1 = for_ij spacedim dim_t
                      (\<lambda>i j result. set_entry result i j (data_derv 0 ! j * supp_pts 0 ! i)) result0
      in fold (\<lambda>k result.
           for_ij spacedim dim_t
             (\<lambda>i j result. set_entry result i j (result ! i ! j + data_derv k ! j * supp_pts k ! i))
             result)
           [1..<n_shape_functions data] result1)"

text \<open>
  The three parts of \<open>maybe_update_Jacobians\<close>: the contravariant matrices (with
  \<open>std::fill\<close>, the assertion on \<open>n_shape_functions\<close> and the loop over the quadrature
  points), the covariant matrices and the volume elements.
\<close>

definition update_contravariant ::
  "UpdateFlagValues \<Rightarrow> nat \<Rightarrow> nat \<Rightarrow> UpdateFlags \<Rightarrow> Similarity \<Rightarrow> nat \<Rightarrow> double InternalData
     \<Rightarrow> dealii_exception + double InternalData" where
  "update_contravariant fl dim_t spacedim update_flags cell_similarity data_set data0 =
     (if update_flags AND update_contravariant_transformation fl \<noteq> 0
         \<and> cell_similarity \<noteq> translation
      then
        (let n_q_points = length (contravariant data0);
             data1 = data0\<lparr>contravariant :=
                       replicate n_q_points (replicate spacedim (replicate dim_t 0))\<rparr>
         in Assert (n_shape_functions data1 > 0) ExcInternalError
              (Inr (fold (\<lambda>point data.
                      let result = contravariant_result dim_t spacedim data (point + data_set)
                      in data\<lparr>contravariant := (contravariant data)[point :=
                           for_ij spacedim dim_t
                             (\<lambda>i j c. set_entry c i j (result ! i ! j))
                             (contravariant data ! point)]\<rparr>)
                    [0..<n_q_points] data1)))
      else Inr data0)"

definition update_covariant ::
  "UpdateFlagValues \<Rightarrow> TensorFunctions \<Rightarrow> UpdateFlags \<Rightarrow> Similarity \<Rightarrow> double InternalData
     \<Rightarrow> double InternalData" where
  "update_covariant fl ops update_flags cell_similarity data0 =
     (if update_flags AND update_covariant_transformation fl \<noteq> 0
         \<and> cell_similarity \<noteq> translation
      then fold (\<lambda>point data.
             data\<lparr>covariant := (covariant data)[point :=
                covariant_form ops (contravariant data ! point)]\<rparr>)
           [0..<length (contravariant data0)] data0
      else data0)"

definition update_volume_elements_of ::
  "UpdateFlagValues \<Rightarrow> TensorFunctions \<Rightarrow> UpdateFlags \<Rightarrow> Similarity \<Rightarrow> double InternalData
     \<Rightarrow> double InternalData" where
  "update_volume_elements_of fl ops update_flags cell_similarity data0 =
     (if update_flags AND update_volume_elements fl \<noteq> 0
         \<and> cell_similarity \<noteq> translation
      then fold (\<lambda>point data.
             data\<lparr>volume_elements := (volume_elements data)[point :=
                determinant ops (contravariant data ! point)]\<rparr>)
           [0..<length (contravariant data0)] data0
      else data0)"

definition maybe_update_Jacobians ::
  "UpdateFlagValues \<Rightarrow> TensorFunctions \<Rightarrow> nat \<Rightarrow> nat \<Rightarrow> Similarity \<Rightarrow> nat \<Rightarrow> double InternalData
     \<Rightarrow> dealii_exception + double InternalData" where
  "maybe_update_Jacobians fl ops dim_t spacedim cell_similarity data_set data0 =
     (let update_flags = update_each data0 in
      and_then
        (update_contravariant fl dim_t spacedim update_flags cell_similarity data_set data0)
        (\<lambda>data. Inr (update_volume_elements_of fl ops update_flags cell_similarity
                       (update_covariant fl ops update_flags cell_similarity data))))"

subsection \<open>\<open>MappingQGeneric::fill_fe_values\<close>\<close>

text \<open>
  The body of the loop over the quadrature points that fills \<open>JxW_values\<close> and
  \<open>normal_vectors\<close>, with the assertion on distorted cells for \<open>dim == spacedim\<close>.
\<close>

definition JxW_at_point ::
  "UpdateFlagValues \<Rightarrow> TensorFunctions \<Rightarrow> nat \<Rightarrow> nat \<Rightarrow> cell_accessor \<Rightarrow> Similarity
     \<Rightarrow> UpdateFlags \<Rightarrow> double list \<Rightarrow> double InternalData \<Rightarrow> nat \<Rightarrow> MappingRelatedData
     \<Rightarrow> dealii_exception + MappingRelatedData" where
  "JxW_at_point fl ops dim_t spacedim cell cell_similarity update_flags weights data point
       output_data =
     (if dim_t = spacedim
      then
        (let det = determinant ops (contravariant data ! point) in
         Assert (det > 1 / 10 ^ 12 * (cell_diameter cell / sqrt (real dim_t)) ^ dim_t)
           (ExcDistortedMappedCell point)
           (Inr (output_data\<lparr>JxW_values := (JxW_values output_data)[point :=
                   weights ! point * det]\<rparr>)))
      else
        (let DX_t = for_ij spacedim dim_t
                      (\<lambda>i j DX_t. set_entry DX_t j i (contravariant data ! point ! i ! j))
                      (replicate dim_t (replicate spacedim 0));
             G = for_ij dim_t dim_t
                   (\<lambda>i j G. set_entry G i j (scalar_product ops (DX_t ! i) (DX_t ! j)))
                   (replicate dim_t (replicate dim_t 0));
             output_data1 = output_data\<lparr>JxW_values := (JxW_values output_data)[point :=
                   sqrt (determinant_of_tensor ops G) * weights ! point]\<rparr>
         in if cell_similarity = inverted_translation
            then
              (if update_flags AND update_normal_vectors fl \<noteq> 0
               then Inr (output_data1\<lparr>normal_vectors := (normal_vectors output_data1)[point :=
                      map (\<lambda>x. x * (- 1)) (normal_vectors output_data1 ! point)]\<rparr>)
               else Inr output_data1)
            else
              (if update_flags AND update_normal_vectors fl \<noteq> 0
               then Assert (spacedim - dim_t = 1) ExcMessage
                 (let n0 = (if dim_t = 1
                            then cross_product_1 ops (map uminus (DX_t ! 0))
                            else cross_product_2 ops (DX_t ! 0) (DX_t ! 1));
                      n1 = map (\<lambda>x. x / norm_of ops n0) n0;
                      n2 = (if cell_direction_flag cell = False
                            then map (\<lambda>x. x * (- 1)) n1 else n1)
                  in Inr (output_data1\<lparr>normal_vectors :=
                            (normal_vectors output_data1)[point := n2]\<rparr>))
               else Inr output_data1)))"

definition fill_JxW_values ::
  "UpdateFlagValues \<Rightarrow> TensorFunctions \<Rightarrow> nat \<Rightarrow> nat \<Rightarrow> cell_accessor \<Rightarrow> Similarity
     \<Rightarrow> double list \<Rightarrow> double InternalData \<Rightarrow> MappingRelatedData
     \<Rightarrow> dealii_exception + MappingRelatedData" where
  "fill_JxW_values fl ops dim_t spacedim cell cell_similarity weights data output_data0 =
     (let update_flags = update_each data; n_q_points = length weights in
      if update_flags AND (update_normal_vectors fl OR update_JxW_values fl) \<noteq> 0
      then
        Assert (length (JxW_values output_data0) = n_q_points)
          (ExcDimensionMismatch (length (JxW_values output_data0)) n_q_points)
        (Assert (\<not> (update_flags AND update_normal_vectors fl \<noteq> 0)
                 \<or> length (normal_vectors output_data0) = n_q_points)
          (ExcDimensionMismatch (length (normal_vectors output_data0)) n_q_points)
        (if cell_similarity \<noteq> translation
         then for_each [0..<n_q_points]
                (JxW_at_point fl ops dim_t spacedim cell cell_similarity update_flags weights data)
                output_data0
         else Inr output_data0))
      else Inr output_data0)"

text \<open>The copies of the Jacobians and of the inverse Jacobians to the output.\<close>

definition copy_jacobians ::
  "UpdateFlagValues \<Rightarrow> UpdateFlags \<Rightarrow> Similarity \<Rightarrow> nat \<Rightarrow> double InternalData \<Rightarrow> MappingRelatedData
     \<Rightarrow> dealii_exception + MappingRelatedData" where
  "copy_jacobians fl update_flags cell_similarity n_q_points data output_data0 =
     (if update_flags AND update_jacobians fl \<noteq> 0
      then Assert (length (jacobians output_data0) = n_q_points)
             (ExcDimensionMismatch (length (jacobians output_data0)) n_q_points)
             (Inr (if cell_similarity \<noteq> translation
                   then fold (\<lambda>point output_data.
                          output_data\<lparr>jacobians := (jacobians output_data)[point :=
                             contravariant data ! point]\<rparr>)
                        [0..<n_q_points] output_data0
                   else output_data0))
      else Inr output_data0)"

definition copy_inverse_jacobians ::
  "UpdateFlagValues \<Rightarrow> TensorFunctions \<Rightarrow> UpdateFlags \<Rightarrow> Similarity \<Rightarrow> nat \<Rightarrow> double InternalData
     \<Rightarrow> MappingRelatedData \<Rightarrow> dealii_exception + MappingRelatedData" where
  "copy_inverse_jacobians fl ops update_flags cell_similarity n_q_points data output_data0 =
     (if update_flags AND update_inverse_jacobians fl \<noteq> 0
      then Assert (length (inverse_jacobians output_data0) = n_q_points)
             (ExcDimensionMismatch (length (inverse_jacobians output_data0)) n_q_points)
             (Inr (if cell_similarity \<noteq> translation
                   then fold (\<lambda>point output_data.
                          output_data\<lparr>inverse_jacobians := (inverse_jacobians output_data)[point :=
                             transpose_form ops (covariant data ! point)]\<rparr>)
                        [0..<n_q_points] output_data0
                   else output_data0))
      else Inr output_data0)"

text \<open>
  The support points of the mapping are computed again when none are stored or when the
  cell is not the one they were computed for.
\<close>

definition update_support_points :: "cell_accessor \<Rightarrow> double InternalData \<Rightarrow> double InternalData" where
  "update_support_points cell data0 =
     (if length (mapping_support_points data0) = 0
         \<or> (case cell_of_current_support_points data0 of
               None \<Rightarrow> True
             | Some c \<Rightarrow> cell_triangulation cell \<noteq> cell_triangulation c
                        \<or> (cell_level cell, cell_index cell) \<noteq> (cell_level c, cell_index c))
      then data0\<lparr>mapping_support_points := cell_mapping_support_points cell,
                  cell_of_current_support_points := Some cell\<rparr>
      else data0)"

text \<open>
  The function, up to the copy of the inverse Jacobians; \<open>weights\<close> are the weights of the
  quadrature formula and their number is \<open>quadrature.size()\<close>. The six calls that follow in
  the source (\<open>maybe_update_jacobian_grads\<close> and the like) have no assertions, read
  \<open>data\<close> and write six other fields of \<open>output_data\<close>, which the model does not carry.
  The result is the internal data, which the source changes although it is passed as
  \<open>const\<close> (its fields are \<open>mutable\<close>), and the output.
\<close>

definition fill_fe_values ::
  "UpdateFlagValues \<Rightarrow> TensorFunctions \<Rightarrow> nat \<Rightarrow> nat \<Rightarrow> cell_accessor \<Rightarrow> Similarity
     \<Rightarrow> double list \<Rightarrow> double InternalData \<Rightarrow> MappingRelatedData
     \<Rightarrow> dealii_exception + (double InternalData \<times> MappingRelatedData)" where
  "fill_fe_values fl ops dim_t spacedim cell cell_similarity weights data0 output_data0 =
     (let n_q_points = length weights;
          data1 = update_support_points cell data0;
          output_data1 = output_data0\<lparr>quadrature_points :=
             maybe_compute_q_points fl spacedim 0 data1 (quadrature_points output_data0)\<rparr>
      in and_then (maybe_update_Jacobians fl ops dim_t spacedim cell_similarity 0 data1)
          (\<lambda>data.
            let update_flags = update_each data in
            and_then (fill_JxW_values fl ops dim_t spacedim cell cell_similarity weights data
                        output_data1)
              (\<lambda>output_data2.
                and_then (copy_jacobians fl update_flags cell_similarity n_q_points data output_data2)
                  (\<lambda>output_data3.
                    and_then (copy_inverse_jacobians fl ops update_flags cell_similarity n_q_points
                                data output_data3)
                      (\<lambda>output_data4. Inr (data, output_data4))))))"

section \<open>source/lac/sparse\_direct.cc\<close>

subsection \<open>Sparse matrices\<close>

text \<open>
  Modelled from the spec: the matrix classes (\<open>SparseMatrix\<close> and its relatives) are
  declared in missing headers. A matrix is its number of columns and, for every row, the
  stored entries (column index and value) in the order in which the iterators
  \<open>matrix.begin(row)\<close> ... \<open>matrix.end(row)\<close> visit them. \<open>get_row_length\<close> is the number
  of stored entries of a row, \<open>n_nonzero_elements\<close> the number of stored entries, and
  \<open>n_actually_nonzero_elements\<close> the number of stored entries whose absolute value is
  greater than zero.
\<close>

type_synonym MatrixRow = "(nat \<times> double) list"

record SparseMatrix =
  n_cols :: nat
  row_entries :: "MatrixRow list"

definition matrix_m :: "SparseMatrix \<Rightarrow> nat" where
  "matrix_m matrix = length (row_entries matrix)"

definition matrix_n :: "SparseMatrix \<Rightarrow> nat" where
  "matrix_n matrix = n_cols matrix"

definition get_row_length :: "SparseMatrix \<Rightarrow> nat \<Rightarrow> nat" where
  "get_row_length matrix row = length (row_entries matrix ! row)"

definition n_nonzero_elements :: "SparseMatrix \<Rightarrow> nat" where
  "n_nonzero_elements matrix = sum_list (map length (row_entries matrix))"

definition n_actually_nonzero_elements :: "SparseMatrix \<Rightarrow> nat" where
  "n_actually_nonzero_elements matrix =
     length (filter (\<lambda>p. \<bar>snd p\<bar> > 0) (concat (row_entries matrix)))"

subsection \<open>\<open>SparseDirectUMFPACK::factorize\<close>\<close>

text \<open>
  The three arrays of the solver. \<open>clear ()\<close> has emptied them when \<open>factorize\<close> resizes
  them, so that the new elements are zero.
\<close>

record SparseDirectUMFPACK =
  Ap :: "int list"
  Ai :: "int list"
  Ax :: "double list"

text \<open>
  \<open>Ap[0] = 0\<close> and the loop \<open>Ap[row] = Ap[row-1] + matrix.get_row_length(row-1)\<close>
  for \<open>row = 1, ..., N\<close>.
\<close>

definition fill_row_starts :: "SparseMatrix \<Rightarrow> nat \<Rightarrow> int list \<Rightarrow> int list" where
  "fill_row_starts matrix N Ap0 =
     fold (\<lambda>row Ap. Ap[row := Ap ! (row - 1) + int (get_row_length matrix (row - 1))])
       [1..<N + 1] (Ap0[0 := 0])"

definition factorize_fill_row_starts :: "SparseMatrix \<Rightarrow> SparseDirectUMFPACK" where
  "factorize_fill_row_starts matrix =
     (let N = matrix_m matrix in
      \<lparr>Ap = fill_row_starts matrix N (replicate (N + 1) 0),
       Ai = replicate (n_nonzero_elements matrix) 0,
       Ax = replicate (n_nonzero_elements matrix) 0\<rparr>)"

text \<open>
  The copy of the entries: \<open>row_pointers\<close> starts as a copy of \<open>Ap\<close>, and every entry
  of a row is written to \<open>Ai\<close> and \<open>Ax\<close> at \<open>row_pointers[row]\<close>, which is then
  incremented.
\<close>

definition copy_entry ::
  "nat \<Rightarrow> nat \<times> double \<Rightarrow> int list \<times> SparseDirectUMFPACK \<Rightarrow> int list \<times> SparseDirectUMFPACK" where
  "copy_entry row p st =
     (case st of (row_pointers, s) \<Rightarrow>
        (row_pointers[row := row_pointers ! row + 1],
         s\<lparr>Ai := (Ai s)[nat (row_pointers ! row) := int (fst p)],
           Ax := (Ax s)[nat (row_pointers ! row) := snd p]\<rparr>))"

definition copy_elements ::
  "SparseMatrix \<Rightarrow> int list \<times> SparseDirectUMFPACK \<Rightarrow> int list \<times> SparseDirectUMFPACK" where
  "copy_elements matrix st =
     fold (\<lambda>row st. fold (copy_entry row) (row_entries matrix ! row) st) [0..<matrix_m matrix] st"

text \<open>
  The function up to the call of \<open>sort_arrays\<close>, with its three assertions; the cast
  \<open>static_cast<unsigned int>(Ap.back())\<close> is the remainder modulo \<open>2 ^ 32\<close>. The result
  is \<open>row_pointers\<close> and the arrays. The calls of the UMFPACK library that follow
  \<open>sort_arrays\<close> are not modelled.
\<close>

definition factorize_copy :: "SparseMatrix \<Rightarrow> dealii_exception + (int list \<times> SparseDirectUMFPACK)" where
  "factorize_copy matrix =
     Assert (matrix_m matrix = matrix_n matrix) ExcNotQuadratic
       (let s0 = factorize_fill_row_starts matrix
        in Assert (nat (last (Ap s0)) mod 2 ^ 32 = length (Ai s0)) ExcInternalError
             (case copy_elements matrix (Ap s0, s0) of (row_pointers, s) \<Rightarrow>
                Assert (list_all (\<lambda>i. row_pointers ! i = Ap s ! (i + 1)) [0..<length (Ap s) - 1])
                  ExcInternalError
                  (Inr (row_pointers, s))))"

subsection \<open>\<open>SparseDirectUMFPACK::sort_arrays\<close> for \<open>SparseMatrix\<close>\<close>

text \<open>
  The two \<open>std::swap\<close> calls of the loop body, and the \<open>while\<close> loop of one row. The
  loop ends because the distance of \<open>cursor\<close> to \<open>Ap[row+1]-1\<close> decreases.
\<close>

definition swap_entries :: "SparseDirectUMFPACK \<Rightarrow> int \<Rightarrow> SparseDirectUMFPACK" where
  "swap_entries s cursor =
     s\<lparr>Ai := (Ai s)[nat cursor := Ai s ! nat (cursor + 1), nat (cursor + 1) := Ai s ! nat cursor],
       Ax := (Ax s)[nat cursor := Ax s ! nat (cursor + 1), nat (cursor + 1) := Ax s ! nat cursor]\<rparr>"

function sort_row :: "nat \<Rightarrow> int \<Rightarrow> SparseDirectUMFPACK \<Rightarrow> SparseDirectUMFPACK" where
  "sort_row row cursor s =
     (if cursor < Ap s ! (row + 1) - 1 \<and> Ai s ! nat cursor > Ai s ! nat (cursor + 1)
      then sort_row row (cursor + 1) (swap_entries s cursor)
      else s)"
  by pat_completeness auto
termination
  by (relation "measure (\<lambda>(row, cursor, s). nat (Ap s ! (row + 1) - 1 - cursor))")
     (auto simp: swap_entries_def)
declare sort_row.simps [simp del]

definition sort_arrays :: "SparseMatrix \<Rightarrow> SparseDirectUMFPACK \<Rightarrow> SparseDirectUMFPACK" where
  "sort_arrays matrix s0 = fold (\<lambda>row s. sort_row row (Ap s ! row) s) [0..<matrix_m matrix] s0"

subsection \<open>\<open>SparseDirectMUMPS::initialize_matrix\<close>\<close>

text \<open>
  The fields of the solver that \<open>initialize_matrix\<close> sets: the flag
  \<open>initialize_called\<close> and the fields \<open>n\<close>, \<open>nz\<close>, \<open>irn\<close>, \<open>jcn\<close>, \<open>a\<close> of
  the structure \<open>id\<close> that is handed to the MUMPS library, which point to the members of
  the same names. The calls \<open>dmumps_c\<close> and the control fields of \<open>id\<close> are not modelled.
\<close>

record SparseDirectMUMPS =
  initialize_called :: bool
  id_n :: nat
  id_nz :: nat
  id_irn :: "int list"
  id_jcn :: "int list"
  id_a :: "double list"

text \<open>
  The body of the inner loop: an entry is copied when \<open>std::abs (ptr->value ()) > 0.0\<close>.
\<close>

definition mumps_copy_entry ::
  "nat \<Rightarrow> nat \<times> double \<Rightarrow> nat \<times> double list \<times> int list \<times> int list
     \<Rightarrow> nat \<times> double list \<times> int list \<times> int list" where
  "mumps_copy_entry row ptr st =
     (case st of (index, a, irn, jcn) \<Rightarrow>
        if \<bar>snd ptr\<bar> > 0
        then (index + 1, a[index := snd ptr], irn[index := int row + 1],
              jcn[index := int (fst ptr) + 1])
        else (index, a, irn, jcn))"

text \<open>
  \<open>this_mpi_process\<close> is the result of \<open>Utilities::MPI::this_mpi_process\<close>. The arrays
  made by \<open>new double[nz]\<close> and \<open>new int[nz]\<close> have no defined contents; they start
  with zeros in the model, and every element is assigned by the loop.
\<close>

definition initialize_matrix ::
  "nat \<Rightarrow> SparseMatrix \<Rightarrow> SparseDirectMUMPS \<Rightarrow> dealii_exception + SparseDirectMUMPS" where
  "initialize_matrix this_mpi_process matrix s =
     Assert (initialize_called s = False) ExcInitializeAlreadyCalled
       (Inr ((if this_mpi_process = 0
              then (let nz = n_actually_nonzero_elements matrix in
                    case fold (\<lambda>row st. fold (mumps_copy_entry row) (row_entries matrix ! row) st)
                           [0..<matrix_m matrix]
                           (0, replicate nz 0, replicate nz 0, replicate nz 0) of
                      (index, a, irn, jcn) \<Rightarrow>
                        s\<lparr>id_n := matrix_n matrix, id_nz := nz, id_irn := irn, id_jcn := jcn,
                          id_a := a\<rparr>)
              else s)\<lparr>initialize_called := True\<rparr>))"

section \<open>Definitions used in the statements and proofs\<close>

subsection \<open>The two-dimensional inverse map\<close>

definition is_root :: "double \<Rightarrow> double \<Rightarrow> double \<Rightarrow> double \<Rightarrow> bool" where
  "is_root a b c r = (a * r * r + b * r + c = 0)"

definition both_denominators_small :: "Vertices2 \<Rightarrow> double \<Rightarrow> bool" where
  "both_denominators_small vertices eta =
     (\<bar>xi_denominator0 vertices eta\<bar> \<le> 1 / 10 ^ 10 * max_x vertices
      \<and> \<bar>xi_denominator1 vertices eta\<bar> \<le> 1 / 10 ^ 10 * max_y vertices)"

text \<open>Three cells for worked examples: the unit square, a cell that is not a
  parallelogram, and a cell that has collapsed to a segment.\<close>

definition unit_square :: Vertices2 where
  "unit_square = ((0, 0), (1, 0), (0, 1), (1, 1))"

definition skew_cell :: Vertices2 where
  "skew_cell = ((0, 0), (1, 0), (0, 1), (2, 2))"

definition flat_cell :: Vertices2 where
  "flat_cell = ((0, 0), (0, 1), (0, 1), (0, 0))"

subsection \<open>The closure of update flags\<close>

text \<open>
  One \<open>if\<close> statement of \<open>requires_update_flags\<close> is a rule: a mask that is tested and
  flags that are added. A rule is done in \<open>x\<close> when \<open>x\<close> has the flags it adds, and
  \<open>flags_le\<close> is the inclusion of flag sets.
\<close>

definition apply_rule :: "UpdateFlags \<times> UpdateFlags \<Rightarrow> UpdateFlags \<Rightarrow> UpdateFlags" where
  "apply_rule r x = (if x AND fst r \<noteq> 0 then x OR snd r else x)"

definition closure_rules :: "UpdateFlagValues \<Rightarrow> (UpdateFlags \<times> UpdateFlags) list" where
  "closure_rules fl =
    [(update_JxW_values fl OR update_normal_vectors fl, update_boundary_forms fl),
     (update_covariant_transformation fl OR update_JxW_values fl OR update_jacobians fl
        OR update_jacobian_grads fl OR update_boundary_forms fl OR update_normal_vectors fl,
      update_contravariant_transformation fl),
     (update_inverse_jacobians fl OR update_jacobian_pushed_forward_grads fl
        OR update_jacobian_pushed_forward_2nd_derivatives fl
        OR update_jacobian_pushed_forward_3rd_derivatives fl,
      update_covariant_transformation fl),
     (update_contravariant_transformation fl, update_JxW_values fl),
     (update_normal_vectors fl, update_JxW_values fl)]"

definition rule_done :: "UpdateFlags \<times> UpdateFlags \<Rightarrow> UpdateFlags \<Rightarrow> bool" where
  "rule_done r x = (x OR snd r = x)"

definition flags_le :: "UpdateFlags \<Rightarrow> UpdateFlags \<Rightarrow> bool" where
  "flags_le x y = (x OR y = y)"

text \<open>Values of the flags for worked examples: one bit for every flag.\<close>

definition example_flag_values :: UpdateFlagValues where
  "example_flag_values =
     \<lparr> update_boundary_forms = 0x10, update_quadrature_points = 0x20,
       update_JxW_values = 0x40, update_normal_vectors = 0x80,
       update_jacobians = 0x100, update_jacobian_grads = 0x200,
       update_inverse_jacobians = 0x400, update_covariant_transformation = 0x800,
       update_contravariant_transformation = 0x1000, update_volume_elements = 0x8000,
       update_jacobian_pushed_forward_grads = 0x10000,
       update_jacobian_2nd_derivatives = 0x20000,
       update_jacobian_pushed_forward_2nd_derivatives = 0x40000,
       update_jacobian_3rd_derivatives = 0x80000,
       update_jacobian_pushed_forward_3rd_derivatives = 0x100000 \<rparr>"

subsection \<open>Shape function arrays\<close>

text \<open>
  \<open>tensors_have dim_t data\<close>: every element of \<open>shape_derivatives\<close> has \<open>dim_t\<close>
  components. \<open>shape_arrays_sized m N dim_t data\<close>: the arrays are as
  \<open>InternalData::initialize\<close> leaves them for \<open>m\<close> shape functions and \<open>N\<close>
  quadrature points, each empty or of size \<open>m * N\<close>. \<open>sums_at_every_point\<close> compares
  the data before and after a call: the arrays keep their sizes, and at every point the
  values sum to \<open>1\<close> and the derivatives in every direction sum to \<open>0\<close>, for the
  arrays that are not empty.
\<close>

definition tensors_have :: "nat \<Rightarrow> 'a InternalData \<Rightarrow> bool" where
  "tensors_have dim_t d = list_all (\<lambda>t. length t = dim_t) (shape_derivatives d)"

definition shape_arrays_sized :: "nat \<Rightarrow> nat \<Rightarrow> nat \<Rightarrow> 'a InternalData \<Rightarrow> bool" where
  "shape_arrays_sized m N dim_t d =
     (n_shape_functions d = m
      \<and> (length (shape_values d) = 0 \<or> length (shape_values d) = m * N)
      \<and> (length (shape_derivatives d) = 0 \<or> length (shape_derivatives d) = m * N)
      \<and> tensors_have dim_t d)"

definition shape_values_sum :: "nat \<Rightarrow> double InternalData \<Rightarrow> nat \<Rightarrow> double" where
  "shape_values_sum m data qpoint = (\<Sum>i<m. shape data qpoint i)"

definition shape_derivatives_sum :: "nat \<Rightarrow> nat \<Rightarrow> double InternalData \<Rightarrow> nat \<Rightarrow> double" where
  "shape_derivatives_sum m j data qpoint = (\<Sum>i<m. derivative data qpoint i ! j)"

definition partition_of_unity :: "nat \<Rightarrow> double InternalData \<Rightarrow> nat \<Rightarrow> bool" where
  "partition_of_unity m data qpoint = (shape_values_sum m data qpoint = 1)"

definition gradients_cancel :: "nat \<Rightarrow> nat \<Rightarrow> double InternalData \<Rightarrow> nat \<Rightarrow> bool" where
  "gradients_cancel m dim_t data qpoint =
     list_all (\<lambda>j. shape_derivatives_sum m j data qpoint = 0) [0..<dim_t]"

definition sums_at_every_point :: "nat \<Rightarrow> nat \<Rightarrow> nat \<Rightarrow> double InternalData \<Rightarrow> double InternalData \<Rightarrow> bool" where
  "sums_at_every_point m N dim_t data data' =
     (length (shape_values data') = length (shape_values data)
      \<and> length (shape_derivatives data') = length (shape_derivatives data)
      \<and> (length (shape_values data) \<noteq> 0 \<longrightarrow>
            (\<forall>k < N. shape_values_sum m data' k = 1))
      \<and> (length (shape_derivatives data) \<noteq> 0 \<longrightarrow>
            (\<forall>k < N. \<forall>j < dim_t. shape_derivatives_sum m j data' k = 0)))"

definition shape_loop_inv ::
  "nat \<Rightarrow> nat \<Rightarrow> nat \<Rightarrow> ('a InternalData \<Rightarrow> nat \<Rightarrow> bool) \<Rightarrow> ('a InternalData \<Rightarrow> nat \<Rightarrow> bool)
     \<Rightarrow> nat \<Rightarrow> 'a InternalData \<Rightarrow> bool" where
  "shape_loop_inv m N dim_t PV PD k d =
     (shape_arrays_sized m N dim_t d
      \<and> (length (shape_values d) \<noteq> 0 \<longrightarrow> (\<forall>k' < k. PV d k'))
      \<and> (length (shape_derivatives d) \<noteq> 0 \<longrightarrow> (\<forall>k' < k. PD d k')))"

definition values_writer :: "nat \<Rightarrow> nat \<Rightarrow> ('a InternalData \<Rightarrow> nat \<Rightarrow> bool) \<Rightarrow> ('a InternalData \<Rightarrow> nat \<Rightarrow> bool)
     \<Rightarrow> nat \<Rightarrow> ('a InternalData \<Rightarrow> 'a InternalData) \<Rightarrow> bool" where
  "values_writer m N PV PD k wv =
     (\<forall>u. n_shape_functions u = m \<longrightarrow> length (shape_values u) = m * N \<longrightarrow>
        n_shape_functions (wv u) = m \<and> length (shape_values (wv u)) = m * N
        \<and> shape_derivatives (wv u) = shape_derivatives u
        \<and> PV (wv u) k \<and> (\<forall>k'. k' \<noteq> k \<longrightarrow> PV (wv u) k' = PV u k')
        \<and> (\<forall>k'. PD (wv u) k' = PD u k'))"

definition derivatives_writer :: "nat \<Rightarrow> nat \<Rightarrow> nat \<Rightarrow> ('a InternalData \<Rightarrow> nat \<Rightarrow> bool) \<Rightarrow> ('a InternalData \<Rightarrow> nat \<Rightarrow> bool)
     \<Rightarrow> nat \<Rightarrow> ('a InternalData \<Rightarrow> 'a InternalData) \<Rightarrow> bool" where
  "derivatives_writer m N dim_t PV PD k wd =
     (\<forall>u. n_shape_functions u = m \<longrightarrow> length (shape_derivatives u) = m * N \<longrightarrow> tensors_have dim_t u \<longrightarrow>
        n_shape_functions (wd u) = m \<and> length (shape_derivatives (wd u)) = m * N
        \<and> tensors_have dim_t (wd u)
        \<and> shape_values (wd u) = shape_values u
        \<and> PD (wd u) k \<and> (\<forall>k'. k' \<noteq> k \<longrightarrow> PD (wd u) k' = PD u k')
        \<and> (\<forall>k'. PV (wd u) k' = PV u k'))"

text \<open>
  For the values of the machine: a value is finite or not, and \<open>binary64_value\<close> is the
  rational number that a finite value denotes (it is \<open>0\<close> for the others, and is read only
  where the value is finite). Two values are \<open>opposite\<close> when they are the negatives of
  each other, two zeros and two NaN included. \<open>stored_derivatives_sum\<close> is the exact sum
  of the stored derivatives of all shape functions in one direction, and
  \<open>stored_derivatives_cancel\<close> says of the data before and after a call: the arrays keep
  their sizes, and at every point and in every direction the exact sum is \<open>0\<close> whenever
  the stored derivatives are all finite.
\<close>

fun binary64_is_finite :: "binary64 \<Rightarrow> bool" where
  "binary64_is_finite (Finite s x) = True"
| "binary64_is_finite (Infinity s) = False"
| "binary64_is_finite NaN = False"

fun binary64_value :: "binary64 \<Rightarrow> rat" where
  "binary64_value (Finite s x) = with_sign s x"
| "binary64_value (Infinity s) = 0"
| "binary64_value NaN = 0"

fun opposite :: "binary64 \<Rightarrow> binary64 \<Rightarrow> bool" where
  "opposite (Finite s x) (Finite t y) = (x = y \<and> (x = 0 \<or> s \<noteq> t))"
| "opposite (Infinity s) (Infinity t) = (s \<noteq> t)"
| "opposite NaN NaN = True"
| "opposite (Finite s x) (Infinity t) = False"
| "opposite (Finite s x) NaN = False"
| "opposite (Infinity s) (Finite t y) = False"
| "opposite (Infinity s) NaN = False"
| "opposite NaN (Finite t y) = False"
| "opposite NaN (Infinity t) = False"

definition stored_derivatives_sum :: "nat \<Rightarrow> nat \<Rightarrow> binary64 InternalData \<Rightarrow> nat \<Rightarrow> rat" where
  "stored_derivatives_sum m j data qpoint = (\<Sum>i<m. binary64_value (derivative data qpoint i ! j))"

definition stored_gradients_cancel :: "nat \<Rightarrow> nat \<Rightarrow> binary64 InternalData \<Rightarrow> nat \<Rightarrow> bool" where
  "stored_gradients_cancel m dim_t data qpoint =
     list_all (\<lambda>j. stored_derivatives_sum m j data qpoint = 0) [0..<dim_t]"

definition stored_derivatives_cancel ::
  "nat \<Rightarrow> nat \<Rightarrow> nat \<Rightarrow> binary64 InternalData \<Rightarrow> binary64 InternalData \<Rightarrow> bool" where
  "stored_derivatives_cancel m N dim_t data data' =
     (length (shape_values data') = length (shape_values data)
      \<and> length (shape_derivatives data') = length (shape_derivatives data)
      \<and> (length (shape_derivatives data) \<noteq> 0 \<longrightarrow>
            (\<forall>k < N. \<forall>j < dim_t.
               (\<forall>i < m. binary64_is_finite (derivative data' k i ! j)) \<longrightarrow>
               stored_derivatives_sum m j data' k = 0)))"

text \<open>
  Worked examples: arrays for \<open>m\<close> shape functions and \<open>N\<close> points filled with a given
  zero; a point of the unit square whose coordinates are the values of the machine for
  \<open>0.25\<close> and \<open>0.3\<close>; and what the function for two dimensions stores for this point.
\<close>

definition example_shape_data :: "'a \<Rightarrow> nat \<Rightarrow> nat \<Rightarrow> nat \<Rightarrow> 'a InternalData" where
  "example_shape_data zero m N dim_t =
     \<lparr>update_each = 0, n_shape_functions = m, shape_values = replicate (m * N) zero,
       shape_derivatives = replicate (m * N) (replicate dim_t zero), contravariant = [],
       covariant = [], volume_elements = [], mapping_support_points = [],
       cell_of_current_support_points = None\<rparr>"

definition example_double_point :: "binary64 \<times> binary64" where
  "example_double_point =
     (Finite False (1 / 4), Finite False (5404319552844595 / 18014398509481984))"

definition example_double_result :: "binary64 InternalData" where
  "example_double_result = (example_shape_data (Finite False 0) 4 1 2)
     \<lparr>shape_values :=
        [Finite False (1182194902184755 / 2251799813685248),
         Finite False (3152519739159347 / 18014398509481984),
         Finite False (2026619832316723 / 9007199254740992),
         Finite False (5404319552844595 / 72057594037927936)],
      shape_derivatives :=
        [[Finite True (3152519739159347 / 4503599627370496), Finite True (3 / 4)],
         [Finite False (3152519739159347 / 4503599627370496), Finite True (1 / 4)],
         [Finite True (5404319552844595 / 18014398509481984), Finite False (3 / 4)],
         [Finite False (5404319552844595 / 18014398509481984), Finite False (1 / 4)]]\<rparr>"

subsection \<open>Jacobians\<close>

text \<open>
  \<open>jacobian_entry data qpoint i j\<close> is the sum over all shape functions \<open>k\<close> of the
  \<open>j\<close>-th partial derivative of shape function \<open>k\<close> at the quadrature point times the
  \<open>i\<close>-th coordinate of support point \<open>k\<close>.
\<close>

definition is_matrix :: "nat \<Rightarrow> nat \<Rightarrow> double list list \<Rightarrow> bool" where
  "is_matrix n_i n_j A = (length A = n_i \<and> list_all (\<lambda>row. length row = n_j) A)"

definition jacobian_entry :: "double InternalData \<Rightarrow> nat \<Rightarrow> nat \<Rightarrow> nat \<Rightarrow> double" where
  "jacobian_entry data qpoint i j =
     (\<Sum>k<n_shape_functions data. derivative data qpoint k ! j * mapping_support_points data ! k ! i)"

definition jacobian_matrix :: "nat \<Rightarrow> nat \<Rightarrow> double InternalData \<Rightarrow> nat \<Rightarrow> double list list" where
  "jacobian_matrix dim_t spacedim data qpoint =
     map (\<lambda>i. map (\<lambda>j. jacobian_entry data qpoint i j) [0..<dim_t]) [0..<spacedim]"

definition same_mapping_inputs :: "double InternalData \<Rightarrow> double InternalData \<Rightarrow> bool" where
  "same_mapping_inputs d d' =
     (update_each d' = update_each d \<and> n_shape_functions d' = n_shape_functions d
      \<and> shape_derivatives d' = shape_derivatives d
      \<and> mapping_support_points d' = mapping_support_points d)"


text \<open>
  \<open>computed_for_cell cell data\<close>: support points are stored and they were computed for a
  cell with the triangulation, level and index of \<open>cell\<close>, so that \<open>fill_fe_values\<close>
  keeps them; otherwise it computes those of \<open>cell\<close>. \<open>support_points_for\<close> are the
  support points that are current after this step.
\<close>

definition computed_for_cell :: "cell_accessor \<Rightarrow> 'a InternalData \<Rightarrow> bool" where
  "computed_for_cell cell data =
     (length (mapping_support_points data) \<noteq> 0
      \<and> (case cell_of_current_support_points data of
            None \<Rightarrow> False
          | Some c \<Rightarrow> cell_triangulation c = cell_triangulation cell
                     \<and> cell_level c = cell_level cell \<and> cell_index c = cell_index cell))"

definition support_points_for :: "cell_accessor \<Rightarrow> double InternalData \<Rightarrow> Point list" where
  "support_points_for cell data =
     (if computed_for_cell cell data then mapping_support_points data
      else cell_mapping_support_points cell)"

text \<open>
  The conditions of the assertions of \<open>fill_fe_values\<close>, for a call with the flags
  \<open>update_contravariant_transformation\<close> and \<open>update_jacobians\<close> and a cell that is no
  \<open>translation\<close>, in terms of the arguments of the call. \<open>JxW_assertions_at\<close> are the two
  assertions of the loop body that fills \<open>JxW_values\<close>, for the Jacobian at one point:
  the cell is not distorted (for \<open>dim == spacedim\<close>), and there is a cell normal only in
  codimension one. \<open>no_assertion_fails\<close> adds \<open>n_shape_functions > 0\<close> of
  \<open>maybe_update_Jacobians\<close> and the four \<open>AssertDimension\<close> on the sizes of the output.
\<close>

definition JxW_assertions_at ::
  "UpdateFlagValues \<Rightarrow> TensorFunctions \<Rightarrow> nat \<Rightarrow> nat \<Rightarrow> cell_accessor \<Rightarrow> Similarity
     \<Rightarrow> UpdateFlags \<Rightarrow> DerivativeForm1 \<Rightarrow> bool" where
  "JxW_assertions_at fl ops dim_t spacedim cell cell_similarity update_flags jacobian =
     (if dim_t = spacedim
      then 1 / 10 ^ 12 * (cell_diameter cell / sqrt (real dim_t)) ^ dim_t
             < determinant ops jacobian
      else cell_similarity \<noteq> inverted_translation
             \<and> update_flags AND update_normal_vectors fl \<noteq> 0
           \<longrightarrow> spacedim - dim_t = 1)"

definition no_assertion_fails ::
  "UpdateFlagValues \<Rightarrow> TensorFunctions \<Rightarrow> nat \<Rightarrow> nat \<Rightarrow> cell_accessor \<Rightarrow> Similarity
     \<Rightarrow> double list \<Rightarrow> double InternalData \<Rightarrow> MappingRelatedData \<Rightarrow> bool" where
  "no_assertion_fails fl ops dim_t spacedim cell cell_similarity weights data output_data =
     (let n_q_points = length weights;
          update_flags = update_each data;
          current = data\<lparr>mapping_support_points := support_points_for cell data\<rparr>
      in 0 < n_shape_functions data
       \<and> (update_flags AND (update_normal_vectors fl OR update_JxW_values fl) \<noteq> 0 \<longrightarrow>
            length (JxW_values output_data) = n_q_points
          \<and> (update_flags AND update_normal_vectors fl \<noteq> 0 \<longrightarrow>
                length (normal_vectors output_data) = n_q_points)
          \<and> list_all (\<lambda>point. JxW_assertions_at fl ops dim_t spacedim cell cell_similarity
                                update_flags (jacobian_matrix dim_t spacedim current point))
               [0..<n_q_points])
       \<and> length (jacobians output_data) = n_q_points
       \<and> (update_flags AND update_inverse_jacobians fl \<noteq> 0 \<longrightarrow>
            length (inverse_jacobians output_data) = n_q_points))"

text \<open>
  A worked example in one dimension: a line cell with vertices \<open>1\<close> and \<open>3\<close>, linear shape
  functions, one quadrature point of weight \<open>1\<close>, and \<open>update_jacobians | update_JxW_values\<close>
  requested. The tensor functions are those of \<open>1 \<times> 1\<close> matrices.
\<close>

definition example_tensor_functions :: TensorFunctions where
  "example_tensor_functions =
     \<lparr>determinant = (\<lambda>A. A ! 0 ! 0), determinant_of_tensor = (\<lambda>A. A ! 0 ! 0),
       scalar_product = (\<lambda>a b. a ! 0 * b ! 0), covariant_form = (\<lambda>A. [[1 / (A ! 0 ! 0)]]),
       transpose_form = (\<lambda>A. A), cross_product_1 = (\<lambda>a. a), cross_product_2 = (\<lambda>a b. a),
       norm_of = (\<lambda>a. \<bar>a ! 0\<bar>)\<rparr>"

definition example_cell :: cell_accessor where
  "example_cell = \<lparr>cell_triangulation = 0, cell_level = 0, cell_index = 0, cell_diameter = 2,
      cell_direction_flag = True, cell_mapping_support_points = [[1], [3]]\<rparr>"

definition example_internal_data :: "double InternalData" where
  "example_internal_data = \<lparr>update_each = requires_update_flags example_flag_values 0x140,
      n_shape_functions = 2, shape_values = [], shape_derivatives = [[- 1], [1]],
      contravariant = [[[0]]], covariant = [], volume_elements = [],
      mapping_support_points = [], cell_of_current_support_points = None\<rparr>"

definition example_output :: MappingRelatedData where
  "example_output = \<lparr>quadrature_points = [], JxW_values = [0], normal_vectors = [],
      jacobians = [[[0]]], inverse_jacobians = []\<rparr>"

definition example_data1 :: "double InternalData" where
  "example_data1 = example_internal_data\<lparr>mapping_support_points := [[1], [3]],
            cell_of_current_support_points := Some example_cell\<rparr>"

text \<open>
  Two more cells of the same triangulation: the next cell, with vertices \<open>3\<close> and \<open>7\<close>,
  and a cell whose vertices \<open>3\<close> and \<open>1\<close> are in the wrong order, so that the Jacobian
  is negative. \<open>example_data_at cell\<close> is the internal data with the support points of
  \<open>cell\<close> stored.
\<close>

definition example_next_cell :: cell_accessor where
  "example_next_cell = \<lparr>cell_triangulation = 0, cell_level = 0, cell_index = 1, cell_diameter = 4,
      cell_direction_flag = True, cell_mapping_support_points = [[3], [7]]\<rparr>"

definition example_inverted_cell :: cell_accessor where
  "example_inverted_cell = \<lparr>cell_triangulation = 0, cell_level = 0, cell_index = 2,
      cell_diameter = 2, cell_direction_flag = True, cell_mapping_support_points = [[3], [1]]\<rparr>"

definition example_data_at :: "cell_accessor \<Rightarrow> double InternalData" where
  "example_data_at cell = example_internal_data
     \<lparr>mapping_support_points := cell_mapping_support_points cell,
      cell_of_current_support_points := Some cell\<rparr>"

subsection \<open>Compressed rows\<close>

text \<open>
  \<open>row_start matrix r\<close> is the number of stored entries in the rows before \<open>r\<close>;
  \<open>entries_of s\<close> pairs every column index in \<open>Ai\<close> with its value in \<open>Ax\<close>;
  \<open>row_segment s row\<close> and \<open>Ai_segment s row\<close> are the parts of these arrays from
  \<open>Ap[row]\<close> to \<open>Ap[row+1]-1\<close>. \<open>bubble\<close> is the single run of bubble sort on a list.
\<close>

definition row_start :: "SparseMatrix \<Rightarrow> nat \<Rightarrow> nat" where
  "row_start matrix r = sum_list (map length (take r (row_entries matrix)))"

definition entries_of :: "SparseDirectUMFPACK \<Rightarrow> (int \<times> double) list" where
  "entries_of s = zip (Ai s) (Ax s)"

definition matrix_entry :: "nat \<times> double \<Rightarrow> int \<times> double" where
  "matrix_entry p = (int (fst p), snd p)"

definition copy_inv ::
  "SparseMatrix \<Rightarrow> SparseDirectUMFPACK \<Rightarrow> nat \<Rightarrow> int list \<times> SparseDirectUMFPACK \<Rightarrow> bool" where
  "copy_inv matrix s0 k st =
     (case st of (rp, s) \<Rightarrow>
        length rp = matrix_m matrix + 1
      \<and> (\<forall>i < k. rp ! i = int (row_start matrix (i + 1)))
      \<and> (\<forall>i. k \<le> i \<and> i \<le> matrix_m matrix \<longrightarrow> rp ! i = int (row_start matrix i))
      \<and> Ap s = Ap s0
      \<and> length (Ai s) = n_nonzero_elements matrix
      \<and> length (Ax s) = n_nonzero_elements matrix
      \<and> take (row_start matrix k) (entries_of s)
          = map matrix_entry (concat (take k (row_entries matrix))))"

fun bubble :: "(int \<times> double) list \<Rightarrow> (int \<times> double) list" where
  "bubble (x # y # zs) = (if fst x > fst y then y # bubble (x # zs) else x # y # zs)"
| "bubble xs = xs"

definition row_segment :: "SparseDirectUMFPACK \<Rightarrow> nat \<Rightarrow> (int \<times> double) list" where
  "row_segment s row =
     take (nat (Ap s ! (row + 1)) - nat (Ap s ! row)) (drop (nat (Ap s ! row)) (entries_of s))"

definition Ai_segment :: "SparseDirectUMFPACK \<Rightarrow> nat \<Rightarrow> int list" where
  "Ai_segment s row =
     take (nat (Ap s ! (row + 1)) - nat (Ap s ! row)) (drop (nat (Ap s ! row)) (Ai s))"

definition row_starts_wellformed :: "nat \<Rightarrow> SparseDirectUMFPACK \<Rightarrow> bool" where
  "row_starts_wellformed N s =
     (length (Ap s) = N + 1 \<and> sorted (Ap s) \<and> 0 \<le> Ap s ! 0
      \<and> Ap s ! N \<le> int (length (Ai s)) \<and> length (Ai s) = length (Ax s))"

definition entries_with_rows :: "SparseMatrix \<Rightarrow> (nat \<times> nat \<times> double) list" where
  "entries_with_rows matrix =
     concat (map (\<lambda>row. map (Pair row) (row_entries matrix ! row)) [0..<matrix_m matrix])"

definition kept_entries :: "SparseMatrix \<Rightarrow> (nat \<times> nat \<times> double) list" where
  "kept_entries matrix = filter (\<lambda>e. \<bar>snd (snd e)\<bar> > 0) (entries_with_rows matrix)"

text \<open>
  Worked examples: a \<open>3 \<times> 3\<close> matrix with the diagonal entry first in every row, the
  arrays that \<open>factorize\<close> copies from it, and a \<open>2 \<times> 2\<close> matrix with a stored zero.
\<close>

definition example_matrix :: SparseMatrix where
  "example_matrix = \<lparr>n_cols = 3,
     row_entries = [[(0, 1), (1, 2), (2, 3)], [(1, 4), (0, 5), (2, 6)], [(2, 7), (0, 8), (1, 9)]]\<rparr>"

definition example_arrays :: SparseDirectUMFPACK where
  "example_arrays = \<lparr>Ap = [0, 3, 6, 9], Ai = [0, 1, 2, 1, 0, 2, 2, 0, 1],
                      Ax = [1, 2, 3, 4, 5, 6, 7, 8, 9]\<rparr>"

definition example_matrix_with_zero :: SparseMatrix where
  "example_matrix_with_zero = \<lparr>n_cols = 2, row_entries = [[(0, 5), (1, 0)], [(1, 7)]]\<rparr>"

definition example_mumps :: SparseDirectMUMPS where
  "example_mumps = \<lparr>initialize_called = False, id_n = 0, id_nz = 0, id_irn = [], id_jcn = [],
                     id_a = []\<rparr>"

section \<open>The arithmetic of the machine\<close>

text \<open>
  What the rounding of a positive magnitude \<open>q\<close> returns: \<open>floor_log2\<close> is the binary
  logarithm rounded down, and a result \<open>v\<close> that is no overflow is a multiple \<open>m * 2 ^ e\<close>
  with at most 53 bits (or the power of two that follows them), at a distance of at most
  half a unit \<open>2 ^ e\<close> from \<open>q\<close>, with an even \<open>m\<close> in a tie, where \<open>e\<close> is
  \<open>- 1074\<close> or \<open>q\<close> has 53 bits above \<open>2 ^ e\<close>.
\<close>

lemma pow2_power_int: "pow2 k = power_int 2 k"
  by (simp add: pow2_def power_int_def field_simps)

lemma pow2_pos: "0 < pow2 k"
  by (simp add: pow2_def)

lemma pow2_add: "pow2 (j + k) = pow2 j * pow2 k"
  by (simp add: pow2_power_int power_int_add)

lemma pow2_mono: "j \<le> k \<Longrightarrow> pow2 j \<le> pow2 k"
  by (simp add: pow2_power_int power_int_increasing)

lemma bitlen_pow2:
  assumes "0 < n"
  shows "pow2 (bitlen n - 1) \<le> of_int n" and "of_int n < pow2 (bitlen n)"
proof -
  have "bitlen n \<noteq> 0" using assms by (simp add: bitlen_eq_zero_iff)
  then have b: "0 < bitlen n" using bitlen_nonneg [of n] by simp
  from bitlen_bounds [OF assms]
  have l: "2 ^ nat (bitlen n - 1) \<le> n" and u: "n < 2 ^ nat (bitlen n)" by simp_all
  have "(of_int (2 ^ nat (bitlen n - 1)) :: rat) \<le> of_int n" using l by (simp only: of_int_le_iff)
  then show "pow2 (bitlen n - 1) \<le> of_int n" using b by (simp add: pow2_def)
  have "(of_int n :: rat) < of_int (2 ^ nat (bitlen n))" using u by (simp only: of_int_less_iff)
  then show "of_int n < pow2 (bitlen n)" using b by (simp add: pow2_def)
qed

lemma floor_log2_bounds:
  assumes "0 < q"
  shows "pow2 (floor_log2 q) \<le> q \<and> q < pow2 (floor_log2 q + 1)"
proof -
  obtain n d where nd: "quotient_of q = (n, d)" by (cases "quotient_of q")
  have d: "0 < d" using quotient_of_denom_pos [OF nd] .
  have q: "q = of_int n / of_int d" using quotient_of_div [OF nd] .
  have n: "0 < n" using assms d q by (simp add: zero_less_divide_iff)
  define k where "k = bitlen n - bitlen d"
  note bn = bitlen_pow2 [OF n] and bd = bitlen_pow2 [OF d]
  have dpos: "(0::rat) < of_int d" using d by simp
  have lower: "pow2 (k - 1) < q"
  proof -
    have "pow2 (k - 1) * of_int d < pow2 (k - 1) * pow2 (bitlen d)"
      using bd(2) pow2_pos [of "k - 1"] by simp
    also have "\<dots> = pow2 (bitlen n - 1)"
      by (simp add: pow2_add [symmetric] k_def)
    also have "\<dots> \<le> of_int n" by (rule bn(1))
    finally show ?thesis using dpos by (simp add: q pos_less_divide_eq)
  qed
  have upper: "q < pow2 (k + 1)"
  proof -
    have "of_int n < pow2 (bitlen n)" by (rule bn(2))
    also have "\<dots> = pow2 (k + 1) * pow2 (bitlen d - 1)"
      by (simp add: pow2_add [symmetric] k_def)
    also have "\<dots> \<le> pow2 (k + 1) * of_int d"
      using bd(1) pow2_pos [of "k + 1"] by simp
    finally show ?thesis using dpos by (simp add: q pos_divide_less_eq)
  qed
  have fl: "floor_log2 q = (if pow2 k \<le> q then k else k - 1)"
    by (simp add: floor_log2_def nd k_def Let_def)
  show ?thesis
  proof (cases "pow2 k \<le> q")
    case True
    then show ?thesis using upper fl by simp
  next
    case False
    then show ?thesis using lower fl by simp
  qed
qed

lemma round_half_even_nearest:
  "\<bar>of_int (round_half_even x) - x\<bar> \<le> 1 / 2"
  "\<bar>of_int (round_half_even x) - x\<bar> = 1 / 2 \<Longrightarrow> even (round_half_even x)"
proof -
  define f where "f = \<lfloor>x\<rfloor>"
  define r where "r = x - of_int f"
  define m where "m = round_half_even x"
  have r: "0 \<le> r" "r < 1" unfolding r_def f_def by linarith+
  have x: "x = of_int f + r" by (simp add: r_def)
  have v: "m = (if r > 1 / 2 \<or> (r = 1 / 2 \<and> odd f) then f + 1 else f)"
    by (simp add: m_def round_half_even_def Let_def f_def r_def)
  have d: "of_int m - x = (if r > 1 / 2 \<or> (r = 1 / 2 \<and> odd f) then 1 - r else - r)"
    by (simp add: v x)
  have "\<bar>of_int m - x\<bar> \<le> 1 / 2"
    unfolding d using r by (auto simp: abs_if)
  then show "\<bar>of_int (round_half_even x) - x\<bar> \<le> 1 / 2" by (simp add: m_def)
  have "even m" if "\<bar>of_int m - x\<bar> = 1 / 2"
    using that r unfolding d by (auto simp: v abs_if split: if_splits)
  then show "even (round_half_even x)" if "\<bar>of_int (round_half_even x) - x\<bar> = 1 / 2"
    using that by (simp add: m_def)
qed

lemma round_half_even_mono:
  assumes "x \<le> of_int n"
  shows "round_half_even x \<le> n"
proof -
  have "\<lfloor>x\<rfloor> \<le> \<lfloor>of_int n :: rat\<rfloor>" using assms by (rule floor_mono)
  then have "\<lfloor>x\<rfloor> \<le> n" by simp
  moreover have "x - of_int \<lfloor>x\<rfloor> = 0" if "\<lfloor>x\<rfloor> = n"
    using that assms by linarith
  ultimately show ?thesis
    by (cases "\<lfloor>x\<rfloor> = n") (auto simp: round_half_even_def Let_def)
qed

lemma round_half_even_nonneg: "0 \<le> x \<Longrightarrow> 0 \<le> round_half_even x"
  by (simp add: round_half_even_def Let_def)

lemma round_magnitude_nearest:
  assumes q: "0 < q" and v: "round_magnitude q = Some v"
    and e_def: "e = max (floor_log2 q - 52) (- 1074)"
    and m_def: "m = round_half_even (q / pow2 e)"
  shows "v = of_int m * pow2 e" and "0 \<le> m" and "m \<le> 2 ^ 53" and "v < pow2 1024"
    and "\<bar>v - q\<bar> \<le> pow2 e / 2"
    and "\<bar>of_int m - q / pow2 e\<bar> = 1 / 2 \<Longrightarrow> even m"
    and "e = - 1074 \<or> pow2 (e + 52) \<le> q"
proof -
  have ve: "v = of_int m * pow2 e" and lt: "v < pow2 1024"
    using q v by (auto simp: round_magnitude_def Let_def e_def m_def split: if_splits)
  show "v = of_int m * pow2 e" by (rule ve)
  show "v < pow2 1024" by (rule lt)
  have pe: "0 < pow2 e" by (rule pow2_pos)
  show "0 \<le> m" unfolding m_def using q pe by (intro round_half_even_nonneg) simp
  have "floor_log2 q + 1 \<le> e + 53" by (simp add: e_def)
  then have "pow2 (floor_log2 q + 1) \<le> pow2 (e + 53)" by (rule pow2_mono)
  then have "q < pow2 (e + 53)" using floor_log2_bounds [OF q] by simp
  moreover have "pow2 53 = 2 ^ 53" by (simp add: pow2_def)
  ultimately have "q < pow2 e * 2 ^ 53" by (simp add: pow2_add)
  then have "q / pow2 e \<le> of_int (2 ^ 53)" using pe by (simp add: pos_divide_le_eq mult.commute)
  then show "m \<le> 2 ^ 53" unfolding m_def by (rule round_half_even_mono)
  have "v - q = pow2 e * (of_int m - q / pow2 e)"
    using pe by (simp add: ve right_diff_distrib)
  then have "\<bar>v - q\<bar> = \<bar>pow2 e\<bar> * \<bar>of_int m - q / pow2 e\<bar>"
    by (simp only: abs_mult)
  then have "\<bar>v - q\<bar> = pow2 e * \<bar>of_int m - q / pow2 e\<bar>"
    using pe by simp
  also have "\<dots> \<le> pow2 e * (1 / 2)"
    using pe round_half_even_nearest(1) [of "q / pow2 e"] unfolding m_def
    by (intro mult_left_mono) simp_all
  finally show "\<bar>v - q\<bar> \<le> pow2 e / 2" by simp
  show "even m" if "\<bar>of_int m - q / pow2 e\<bar> = 1 / 2"
    using that round_half_even_nearest(2) [of "q / pow2 e"] unfolding m_def by simp
  show "e = - 1074 \<or> pow2 (e + 52) \<le> q"
  proof (cases "e = - 1074")
    case False
    then have "e + 52 = floor_log2 q" by (simp add: e_def max_def split: if_splits)
    then show ?thesis using floor_log2_bounds [OF q] by simp
  qed simp
qed

text \<open>Roundings of the numbers that occur in the worked examples.\<close>

lemma round_magnitudeI:
  assumes "q \<noteq> 0" and "max (floor_log2 q - 52) (- 1074) = e"
    and "round_half_even (q / pow2 e) = m" and "of_int m * pow2 e = v" and "v < pow2 1024"
  shows "round_magnitude q = Some v"
  using assms by (simp add: round_magnitude_def Let_def)

lemma round_1: "round_binary64 s 1 = Finite s 1"
proof -
  have "round_magnitude 1 = Some 1"
  proof (rule round_magnitudeI)
    show "(1 :: rat) \<noteq> 0" by simp
    show "max (floor_log2 1 - 52) (- 1074) = - 52" by code_simp
    show "round_half_even (1 / pow2 (- 52)) = 4503599627370496" by code_simp
    show "of_int 4503599627370496 * pow2 (- 52) = (1 :: rat)" by code_simp
    show "(1 :: rat) < pow2 1024" by (simp add: pow2_def)
  qed
  then show ?thesis by (simp add: round_binary64_def)
qed

lemma round_2: "round_binary64 s 2 = Finite s 2"
proof -
  have "round_magnitude 2 = Some 2"
  proof (rule round_magnitudeI)
    show "(2 :: rat) \<noteq> 0" by simp
    show "max (floor_log2 2 - 52) (- 1074) = - 51" by code_simp
    show "round_half_even (2 / pow2 (- 51)) = 4503599627370496" by code_simp
    show "of_int 4503599627370496 * pow2 (- 51) = (2 :: rat)" by code_simp
    show "(2 :: rat) < pow2 1024" by (simp add: pow2_def)
  qed
  then show ?thesis by (simp add: round_binary64_def)
qed

lemma round_3: "round_binary64 s 3 = Finite s 3"
proof -
  have "round_magnitude 3 = Some 3"
  proof (rule round_magnitudeI)
    show "(3 :: rat) \<noteq> 0" by simp
    show "max (floor_log2 3 - 52) (- 1074) = - 51" by code_simp
    show "round_half_even (3 / pow2 (- 51)) = 6755399441055744" by code_simp
    show "of_int 6755399441055744 * pow2 (- 51) = (3 :: rat)" by code_simp
    show "(3 :: rat) < pow2 1024" by (simp add: pow2_def)
  qed
  then show ?thesis by (simp add: round_binary64_def)
qed

lemma round_5: "round_binary64 s 5 = Finite s 5"
proof -
  have "round_magnitude 5 = Some 5"
  proof (rule round_magnitudeI)
    show "(5 :: rat) \<noteq> 0" by simp
    show "max (floor_log2 5 - 52) (- 1074) = - 50" by code_simp
    show "round_half_even (5 / pow2 (- 50)) = 5629499534213120" by code_simp
    show "of_int 5629499534213120 * pow2 (- 50) = (5 :: rat)" by code_simp
    show "(5 :: rat) < pow2 1024" by (simp add: pow2_def)
  qed
  then show ?thesis by (simp add: round_binary64_def)
qed

lemma round_6: "round_binary64 s 6 = Finite s 6"
proof -
  have "round_magnitude 6 = Some 6"
  proof (rule round_magnitudeI)
    show "(6 :: rat) \<noteq> 0" by simp
    show "max (floor_log2 6 - 52) (- 1074) = - 50" by code_simp
    show "round_half_even (6 / pow2 (- 50)) = 6755399441055744" by code_simp
    show "of_int 6755399441055744 * pow2 (- 50) = (6 :: rat)" by code_simp
    show "(6 :: rat) < pow2 1024" by (simp add: pow2_def)
  qed
  then show ?thesis by (simp add: round_binary64_def)
qed

lemma round_2_5: "round_binary64 s (2 / 5) = Finite s (3602879701896397 / 9007199254740992)"
proof -
  have "round_magnitude (2 / 5) = Some (3602879701896397 / 9007199254740992)"
  proof (rule round_magnitudeI)
    show "(2 / 5 :: rat) \<noteq> 0" by simp
    show "max (floor_log2 (2 / 5) - 52) (- 1074) = - 54" by code_simp
    show "round_half_even (2 / 5 / pow2 (- 54)) = 7205759403792794" by code_simp
    show "of_int 7205759403792794 * pow2 (- 54) = (3602879701896397 / 9007199254740992 :: rat)" by code_simp
    show "(3602879701896397 / 9007199254740992 :: rat) < pow2 1024" by (simp add: pow2_def)
  qed
  then show ?thesis by (simp add: round_binary64_def)
qed

lemma round_1_minus_t: "round_binary64 s (5404319552844595 / 9007199254740992) = Finite s (5404319552844595 / 9007199254740992)"
proof -
  have "round_magnitude (5404319552844595 / 9007199254740992) = Some (5404319552844595 / 9007199254740992)"
  proof (rule round_magnitudeI)
    show "(5404319552844595 / 9007199254740992 :: rat) \<noteq> 0" by simp
    show "max (floor_log2 (5404319552844595 / 9007199254740992) - 52) (- 1074) = - 53" by code_simp
    show "round_half_even (5404319552844595 / 9007199254740992 / pow2 (- 53)) = 5404319552844595" by code_simp
    show "of_int 5404319552844595 * pow2 (- 53) = (5404319552844595 / 9007199254740992 :: rat)" by code_simp
    show "(5404319552844595 / 9007199254740992 :: rat) < pow2 1024" by (simp add: pow2_def)
  qed
  then show ?thesis by (simp add: round_binary64_def)
qed

lemma round_u: "round_binary64 s (5404319552844595 / 9007199254740992) = Finite s (5404319552844595 / 9007199254740992)"
proof -
  have "round_magnitude (5404319552844595 / 9007199254740992) = Some (5404319552844595 / 9007199254740992)"
  proof (rule round_magnitudeI)
    show "(5404319552844595 / 9007199254740992 :: rat) \<noteq> 0" by simp
    show "max (floor_log2 (5404319552844595 / 9007199254740992) - 52) (- 1074) = - 53" by code_simp
    show "round_half_even (5404319552844595 / 9007199254740992 / pow2 (- 53)) = 5404319552844595" by code_simp
    show "of_int 5404319552844595 * pow2 (- 53) = (5404319552844595 / 9007199254740992 :: rat)" by code_simp
    show "(5404319552844595 / 9007199254740992 :: rat) < pow2 1024" by (simp add: pow2_def)
  qed
  then show ?thesis by (simp add: round_binary64_def)
qed

lemma round_6t: "round_binary64 s (10808639105689191 / 4503599627370496) = Finite s (1351079888211149 / 562949953421312)"
proof -
  have "round_magnitude (10808639105689191 / 4503599627370496) = Some (1351079888211149 / 562949953421312)"
  proof (rule round_magnitudeI)
    show "(10808639105689191 / 4503599627370496 :: rat) \<noteq> 0" by simp
    show "max (floor_log2 (10808639105689191 / 4503599627370496) - 52) (- 1074) = - 51" by code_simp
    show "round_half_even (10808639105689191 / 4503599627370496 / pow2 (- 51)) = 5404319552844596" by code_simp
    show "of_int 5404319552844596 * pow2 (- 51) = (1351079888211149 / 562949953421312 :: rat)" by code_simp
    show "(1351079888211149 / 562949953421312 :: rat) < pow2 1024" by (simp add: pow2_def)
  qed
  then show ?thesis by (simp add: round_binary64_def)
qed

lemma round_sum: "round_binary64 s (27021597764222979 / 9007199254740992) = Finite s (6755399441055745 / 2251799813685248)"
proof -
  have "round_magnitude (27021597764222979 / 9007199254740992) = Some (6755399441055745 / 2251799813685248)"
  proof (rule round_magnitudeI)
    show "(27021597764222979 / 9007199254740992 :: rat) \<noteq> 0" by simp
    show "max (floor_log2 (27021597764222979 / 9007199254740992) - 52) (- 1074) = - 51" by code_simp
    show "round_half_even (27021597764222979 / 9007199254740992 / pow2 (- 51)) = 6755399441055745" by code_simp
    show "of_int 6755399441055745 * pow2 (- 51) = (6755399441055745 / 2251799813685248 :: rat)" by code_simp
    show "(6755399441055745 / 2251799813685248 :: rat) < pow2 1024" by (simp add: pow2_def)
  qed
  then show ?thesis by (simp add: round_binary64_def)
qed

section \<open>The inverse of the vertex map\<close>

text \<open>
  The one-dimensional inverse and the forward map in the arithmetic of the machine, for
  the vertices \<open>1\<close> and \<open>6\<close> and the point \<open>3\<close>.
\<close>

lemma ex_t: "transform_real_to_unit_cell_1d binary64_arithmetic (Finite False 1, Finite False 6)
      (Finite False 3) = Finite False (3602879701896397 / 9007199254740992)"
  by (simp add: transform_real_to_unit_cell_1d_def binary64_arithmetic_def binary64_sub_def
        with_sign_def round_2 round_5 round_2_5)

lemma ex_rt: "transform_unit_to_real_cell_1d binary64_arithmetic (Finite False 1, Finite False 6)
      (Finite False (3602879701896397 / 9007199254740992))
    = Finite False (6755399441055745 / 2251799813685248)"
  by (simp add: transform_unit_to_real_cell_1d_def binary64_arithmetic_def binary64_sub_def
        binary64_of_int_def with_sign_def round_1 round_1_minus_t round_u round_6t round_sum)

text \<open>
  C3, as amended. Over exact real arithmetic, for two distinct vertices \<open>v0\<close>, \<open>v1\<close> of
  a line cell and every point \<open>p\<close>, the value \<open>t = (p - v0) / (v1 - v0)\<close> returned by
  the one-dimensional \<open>transform_real_to_unit_cell\<close> satisfies
  \<open>(1 - t) * v0 + t * v1 = p\<close>: the forward linear vertex map composed with this inverse
  is the identity.
\<close>

theorem transform_1d_round_trip:
  assumes "v0 \<noteq> v1"
  shows "transform_real_to_unit_cell_1d exact_arithmetic (v0, v1) p = (p - v0) / (v1 - v0)
       \<and> (1 - transform_real_to_unit_cell_1d exact_arithmetic (v0, v1) p) * v0
            + transform_real_to_unit_cell_1d exact_arithmetic (v0, v1) p * v1 = p
       \<and> transform_unit_to_real_cell_1d exact_arithmetic (v0, v1)
            (transform_real_to_unit_cell_1d exact_arithmetic (v0, v1) p) = p"
proof -
  define t where "t = (p - v0) / (v1 - v0)"
  have d: "v1 - v0 \<noteq> 0" using assms by simp
  have "t * (v1 - v0) = p - v0"
    unfolding t_def using d by simp
  then have "(1 - t) * v0 + t * v1 = p"
    by (simp add: algebra_simps)
  then show ?thesis
    by (simp add: transform_real_to_unit_cell_1d_def transform_unit_to_real_cell_1d_def
          exact_arithmetic_def t_def)
qed

theorem transform_1d_round_trip_witness:
  "(1::real) \<noteq> 6
   \<and> transform_real_to_unit_cell_1d exact_arithmetic (1, 6) 3 = 2 / 5
   \<and> transform_unit_to_real_cell_1d exact_arithmetic (1, 6)
        (transform_real_to_unit_cell_1d exact_arithmetic (1, 6) 3) = 3"
  using transform_1d_round_trip [of 1 6 3] by simp

text \<open>
  In the arithmetic of the machine the equation of C3 fails: for the vertices \<open>1\<close> and
  \<open>6\<close> and the point \<open>3\<close> the function returns the value of the machine nearest to
  \<open>2 / 5\<close>, and the forward map takes it to \<open>3 + 2 ^ - 51\<close>.
\<close>

theorem transform_1d_round_trip_counterexample:
  "binary64_of_int 1 = Finite False 1 \<and> binary64_of_int 6 = Finite False 6
   \<and> binary64_of_int 3 = Finite False 3
   \<and> Finite False 1 \<noteq> Finite False 6
   \<and> transform_real_to_unit_cell_1d binary64_arithmetic (Finite False 1, Finite False 6)
        (Finite False 3) = Finite False (3602879701896397 / 9007199254740992)
   \<and> transform_unit_to_real_cell_1d binary64_arithmetic (Finite False 1, Finite False 6)
        (transform_real_to_unit_cell_1d binary64_arithmetic (Finite False 1, Finite False 6)
           (Finite False 3))
       = Finite False (3 + 1 / 2 ^ 51)
   \<and> Finite False (3 + 1 / 2 ^ 51) \<noteq> Finite False 3"
proof -
  have i: "binary64_of_int 1 = Finite False 1" "binary64_of_int 6 = Finite False 6"
    "binary64_of_int 3 = Finite False 3"
    by (simp_all add: binary64_of_int_def round_1 round_6 round_3)
  have r: "transform_unit_to_real_cell_1d binary64_arithmetic (Finite False 1, Finite False 6)
        (transform_real_to_unit_cell_1d binary64_arithmetic (Finite False 1, Finite False 6)
           (Finite False 3))
       = Finite False (3 + 1 / 2 ^ 51)"
    unfolding ex_t ex_rt by simp
  have n: "Finite False 1 \<noteq> Finite False 6" "Finite False (3 + 1 / 2 ^ 51) \<noteq> Finite False 3"
    by simp_all
  show ?thesis using i ex_t r n by (simp only: simp_thms)
qed

text \<open>
  An input with an overflow: for the vertices \<open>- 2 ^ 1023\<close> and \<open>2 ^ 1023\<close> the
  difference of the vertices is an infinity, and the function returns \<open>0\<close> for the
  midpoint \<open>0\<close> of the cell.
\<close>

lemma floor_log2_pow2: "floor_log2 (2 ^ n) = int n"
proof -
  have p: "pow2 (int n) = 2 ^ n" by (simp add: pow2_def)
  have one: "pow2 1 = 2" by (simp add: pow2_def)
  have s: "pow2 k < pow2 (k + 1)" for k
    using pow2_pos [of k] by (simp add: pow2_add one)
  have "pow2 (floor_log2 (2 ^ n)) \<le> 2 ^ n \<and> 2 ^ n < pow2 (floor_log2 (2 ^ n) + 1)"
    by (rule floor_log2_bounds) simp
  then have l: "pow2 (floor_log2 (2 ^ n)) \<le> pow2 (int n)"
    and u: "pow2 (int n) < pow2 (floor_log2 (2 ^ n) + 1)"
    by (simp_all add: p)
  have "floor_log2 (2 ^ n) \<le> int n"
  proof (rule ccontr)
    assume "\<not> floor_log2 (2 ^ n) \<le> int n"
    then have "pow2 (int n + 1) \<le> pow2 (floor_log2 (2 ^ n))" by (intro pow2_mono) simp
    then show False using l s [of "int n"] by simp
  qed
  moreover have "int n < floor_log2 (2 ^ n) + 1"
  proof (rule ccontr)
    assume "\<not> int n < floor_log2 (2 ^ n) + 1"
    then have "pow2 (floor_log2 (2 ^ n) + 1) \<le> pow2 (int n)" by (intro pow2_mono) simp
    then show False using u by simp
  qed
  ultimately show ?thesis by simp
qed

lemma round_half_even_of_int: "round_half_even (of_int k) = k"
  by (simp add: round_half_even_def)

lemma round_magnitude_pow2:
  assumes "52 \<le> n"
  shows "round_magnitude (2 ^ n) = (if n < 1024 then Some (2 ^ n) else None)"
proof -
  have e: "max (floor_log2 (2 ^ n) - 52) (- 1074) = int (n - 52)"
    using assms by (simp add: floor_log2_pow2)
  have p: "pow2 (int (n - 52)) = 2 ^ (n - 52)" "pow2 1024 = 2 ^ 1024"
    by (simp_all add: pow2_def)
  have n: "n = 52 + (n - 52)" using assms by simp
  have "(2::rat) ^ (52 + (n - 52)) = 2 ^ 52 * 2 ^ (n - 52)" by (rule power_add)
  then have split: "(2 ^ n :: rat) = 2 ^ 52 * 2 ^ (n - 52)" using n by simp
  then have q: "(2 ^ n :: rat) / 2 ^ (n - 52) = of_int (2 ^ 52)" by simp
  have m: "round_half_even (2 ^ n / pow2 (int (n - 52))) = 2 ^ 52"
    unfolding p q by (rule round_half_even_of_int)
  have v: "of_int (2 ^ 52) * pow2 (int (n - 52)) = (2 ^ n :: rat)"
    unfolding p using split by simp
  have "((2::rat) ^ N \<le> 2 ^ n) = (N \<le> n)" for N
    by (rule power_increasing_iff) simp
  then have c: "((2 ^ 1024 :: rat) \<le> 2 ^ n) = (\<not> n < 1024)"
    by (simp only: not_less)
  have "round_magnitude (2 ^ n)
      = (if pow2 1024 \<le> of_int (2 ^ 52) * pow2 (int (n - 52)) then None
         else Some (of_int (2 ^ 52) * pow2 (int (n - 52))))"
    by (simp only: round_magnitude_def Let_def e m) simp
  then show ?thesis unfolding v p(2) c by simp
qed

lemma transform_1d_overflow:
  assumes "b = 2 ^ 1023"
  shows "transform_real_to_unit_cell_1d binary64_arithmetic (Finite True b, Finite False b)
           (Finite False 0) = Finite False 0"
proof -
  have pos: "0 < b" "b + b = 2 ^ 1024" using assms by simp_all
  have r1: "round_magnitude b = Some b"
    using round_magnitude_pow2 [of 1023] assms by simp
  have r2: "round_magnitude (2 * b) = None"
    using round_magnitude_pow2 [of 1024] pos(2) by simp
  have a: "binary64_sub (Finite False 0) (Finite True b) = Finite False b"
    using pos(1) by (simp add: binary64_sub_def with_sign_def round_binary64_def r1)
  have c: "binary64_sub (Finite False b) (Finite True b) = Infinity False"
    using pos(1) by (simp add: binary64_sub_def with_sign_def Let_def round_binary64_def r2)
  show ?thesis
    by (simp add: transform_real_to_unit_cell_1d_def binary64_arithmetic_def a c)
qed

lemma transform_1d_overflow_example:
  "transform_real_to_unit_cell_1d binary64_arithmetic
     (Finite True (2 ^ 1023), Finite False (2 ^ 1023)) (Finite False 0) = Finite False 0"
  by (rule transform_1d_overflow) (rule refl)

lemma not_small_over_zero [simp]: "\<not> c_over_b_is_small c 0"
  by (simp add: c_over_b_is_small_def)

lemma zero_over_b_small [simp]: "b \<noteq> 0 \<Longrightarrow> c_over_b_is_small 0 b"
  by (simp add: c_over_b_is_small_def)

lemma sqrt_disc_sq:
  "0 \<le> discriminant a b c \<Longrightarrow> sqrt (discriminant a b c) * sqrt (discriminant a b c) = b * b - 4 * a * c"
  by (simp add: discriminant_def)

lemma textbook_roots:
  assumes a: "a \<noteq> 0" and D: "0 \<le> discriminant a b c"
  shows "is_root a b c (fst (eta_textbook a b c))" "is_root a b c (snd (eta_textbook a b c))"
proof -
  define s where "s = sqrt (discriminant a b c)"
  have ss: "s * s = b * b - 4 * a * c" unfolding s_def using D by (rule sqrt_disc_sq)
  have "a * ((- b - s) / (2 * a)) * ((- b - s) / (2 * a)) + b * ((- b - s) / (2 * a)) + c
          = ((- b - s) * (- b - s) + 2 * b * (- b - s) + 4 * a * c) / (4 * a)"
    using a by (simp add: field_simps)
  also have "(- b - s) * (- b - s) + 2 * b * (- b - s) + 4 * a * c = s * s - (b * b - 4 * a * c)"
    by (simp add: algebra_simps)
  finally show "is_root a b c (fst (eta_textbook a b c))"
    using ss by (simp add: is_root_def eta_textbook_def s_def)
  have "a * ((- b + s) / (2 * a)) * ((- b + s) / (2 * a)) + b * ((- b + s) / (2 * a)) + c
          = ((- b + s) * (- b + s) + 2 * b * (- b + s) + 4 * a * c) / (4 * a)"
    using a by (simp add: field_simps)
  also have "(- b + s) * (- b + s) + 2 * b * (- b + s) + 4 * a * c = s * s - (b * b - 4 * a * c)"
    by (simp add: algebra_simps)
  finally show "is_root a b c (snd (eta_textbook a b c))"
    using ss by (simp add: is_root_def eta_textbook_def s_def)
qed

lemma roots_are_textbook:
  assumes a: "a \<noteq> 0" and D: "0 \<le> discriminant a b c" and r: "is_root a b c r"
  shows "r = fst (eta_textbook a b c) \<or> r = snd (eta_textbook a b c)"
proof -
  define s where "s = sqrt (discriminant a b c)"
  have ss: "s * s = b * b - 4 * a * c" unfolding s_def using D by (rule sqrt_disc_sq)
  have "(2 * a * r + b) * (2 * a * r + b) = 4 * a * (a * r * r + b * r + c) + (b * b - 4 * a * c)"
    by (simp add: algebra_simps)
  also have "\<dots> = s * s" using r ss by (simp add: is_root_def)
  finally have "(2 * a * r + b)\<^sup>2 = s\<^sup>2" by (simp add: power2_eq_square)
  then have "2 * a * r + b = s \<or> 2 * a * r + b = - s"
    by (simp add: power2_eq_iff)
  then have "r = (- b + s) / (2 * a) \<or> r = (- b - s) / (2 * a)"
    using a by (auto simp: field_simps)
  then show ?thesis by (auto simp: eta_textbook_def s_def)
qed

lemma stable_is_textbook:
  assumes a: "a \<noteq> 0"
    and D: "0 \<le> discriminant a b c"
    and m: "- b - sqrt (discriminant a b c) \<noteq> 0"
    and p: "- b + sqrt (discriminant a b c) \<noteq> 0"
  shows "fst (eta_stable a b c) = snd (eta_textbook a b c)"
    and "snd (eta_stable a b c) = fst (eta_textbook a b c)"
proof -
  define s where "s = sqrt (discriminant a b c)"
  have ss: "s * s = b * b - 4 * a * c" unfolding s_def using D by (rule sqrt_disc_sq)
  have prod: "(- b - s) * (- b + s) = 4 * a * c"
    using ss by (simp add: algebra_simps)
  have m': "- b - s \<noteq> 0" and p': "- b + s \<noteq> 0"
    using m p unfolding s_def by simp_all
  have e1: "2 * c / (- b - s) = (- b + s) / (2 * a)"
    using a m' prod by (simp add: field_simps)
  have e2: "2 * c / (- b + s) = (- b - s) / (2 * a)"
    using a p' prod by (simp add: field_simps)
  show "fst (eta_stable a b c) = snd (eta_textbook a b c)"
    using e1 by (simp add: eta_stable_def eta_textbook_def s_def)
  show "snd (eta_stable a b c) = fst (eta_textbook a b c)"
    using e2 by (simp add: eta_stable_def eta_textbook_def s_def)
qed

text \<open>
  C5. Over exact real arithmetic, for \<open>a \<noteq> 0\<close>, discriminant
  \<open>D = b * b - 4 * a * c \<ge> 0\<close> and both denominators \<open>- b - sqrt D\<close> and
  \<open>- b + sqrt D\<close> nonzero, the stable root pair and the textbook root pair are the same
  unordered pair: the first stable root is the second textbook root and the second stable
  root is the first textbook root, so both branches choose among the same roots.
\<close>

theorem eta_stable_textbook_same_roots:
  assumes a: "a \<noteq> 0"
    and D: "0 \<le> discriminant a b c"
    and m: "- b - sqrt (discriminant a b c) \<noteq> 0"
    and p: "- b + sqrt (discriminant a b c) \<noteq> 0"
  shows "{fst (eta_stable a b c), snd (eta_stable a b c)}
           = {fst (eta_textbook a b c), snd (eta_textbook a b c)}
       \<and> fst (eta_stable a b c) = snd (eta_textbook a b c)
       \<and> snd (eta_stable a b c) = fst (eta_textbook a b c)
       \<and> is_root a b c (fst (eta_stable a b c)) \<and> is_root a b c (snd (eta_stable a b c))"
proof -
  have f: "fst (eta_stable a b c) = snd (eta_textbook a b c)"
    and g: "snd (eta_stable a b c) = fst (eta_textbook a b c)"
    using stable_is_textbook [OF a D m p] by simp_all
  have r: "is_root a b c (fst (eta_textbook a b c))" "is_root a b c (snd (eta_textbook a b c))"
    using textbook_roots [OF a D] by simp_all
  show ?thesis using f g r by auto
qed

theorem eta_stable_textbook_same_roots_witness:
  "(1::real) \<noteq> 0 \<and> 0 \<le> discriminant 1 (- 3) 2
   \<and> - (- 3) - sqrt (discriminant 1 (- 3) 2) \<noteq> 0
   \<and> - (- 3) + sqrt (discriminant 1 (- 3) 2) \<noteq> 0
   \<and> eta_stable 1 (- 3) 2 = (2, 1) \<and> eta_textbook 1 (- 3) 2 = (1, 2)
   \<and> {fst (eta_stable 1 (- 3) 2), snd (eta_stable 1 (- 3) 2)}
       = {fst (eta_textbook 1 (- 3) 2), snd (eta_textbook 1 (- 3) 2)}"
proof -
  have d: "discriminant 1 (- 3) 2 = 1"
    by (simp add: discriminant_def)
  have h1: "(1::real) \<noteq> 0" by simp
  have h2: "0 \<le> discriminant 1 (- 3) 2" by (simp add: d)
  have h3: "- (- 3) - sqrt (discriminant 1 (- 3) 2) \<noteq> 0" by (simp add: d)
  have h4: "- (- 3) + sqrt (discriminant 1 (- 3) 2) \<noteq> 0" by (simp add: d)
  have v1: "eta_stable 1 (- 3) 2 = (2, 1)" by (simp add: eta_stable_def d)
  have v2: "eta_textbook 1 (- 3) 2 = (1, 2)" by (simp add: eta_textbook_def d)
  from eta_stable_textbook_same_roots [OF h1 h2 h3 h4] h1 h2 h3 h4 v1 v2
  show ?thesis by blast
qed

lemma candidates_are_the_roots:
  assumes D: "0 \<le> discriminant a b c" and c: "eta_candidates a b c = Some (eta1, eta2)"
  shows "is_root a b c eta1 \<and> is_root a b c eta2
       \<and> (\<forall>r. is_root a b c r \<longrightarrow> r = eta1 \<or> r = eta2)"
proof (cases "a = 0")
  case True
  show ?thesis
  proof (cases "b = 0")
    case True
    with \<open>a = 0\<close> c show ?thesis
      by (simp add: eta_candidates_def discriminant_def)
  next
    case False
    with True c have e: "eta1 = - c / b" "eta2 = - c / b"
      by (simp_all add: eta_candidates_def)
    have u: "r = - c / b" if "is_root a b c r" for r
    proof -
      from that True have "b * r + c = 0" by (simp add: is_root_def)
      then have "b * r = - c" by linarith
      then have "(b * r) / b = - c / b" by simp
      then show ?thesis using False by simp
    qed
    have "b * (- c / b) + c = 0" using False by simp
    then have "is_root a b c (- c / b)" using True by (simp add: is_root_def)
    then show ?thesis using e u by blast
  qed
next
  case False
  obtain t1 t2 where t: "eta_textbook a b c = (t1, t2)" by (cases "eta_textbook a b c")
  have roots: "is_root a b c t1" "is_root a b c t2"
    using textbook_roots [OF False D] t by simp_all
  have every: "r = t1 \<or> r = t2" if "is_root a b c r" for r
    using roots_are_textbook [OF False D that] t by simp
  have "(eta1 = t1 \<and> eta2 = t2) \<or> (eta1 = t2 \<and> eta2 = t1)"
  proof (cases "c_over_b_is_small c b")
    case True
    with False c t show ?thesis by (simp add: eta_candidates_def)
  next
    case nb: False
    have nz: "- b - sqrt (discriminant a b c) \<noteq> 0 \<and> - b + sqrt (discriminant a b c) \<noteq> 0"
    proof (rule ccontr)
      assume "\<not> ?thesis"
      then have "eta_candidates a b c = None"
        using False nb unfolding eta_candidates_def by simp
      then show False using c by simp
    qed
    then have e: "eta_stable a b c = (eta1, eta2)"
      using False nb c unfolding eta_candidates_def by simp
    from nz stable_is_textbook [OF False D] have
      "fst (eta_stable a b c) = snd (eta_textbook a b c)"
      "snd (eta_stable a b c) = fst (eta_textbook a b c)" by blast+
    then show ?thesis using e t by simp
  qed
  then show ?thesis using roots every by blast
qed

lemma closer_to_center_cases:
  "(closer_to_center eta1 eta2 = eta1 \<or> closer_to_center eta1 eta2 = eta2)
   \<and> \<bar>closer_to_center eta1 eta2 - 1 / 2\<bar> \<le> \<bar>eta1 - 1 / 2\<bar>
   \<and> \<bar>closer_to_center eta1 eta2 - 1 / 2\<bar> \<le> \<bar>eta2 - 1 / 2\<bar>"
  by (simp add: closer_to_center_def)

lemma candidates_None_iff:
  "0 \<le> discriminant a b c \<Longrightarrow>
   (eta_candidates a b c = None) = (b = 0 \<and> (a = 0 \<or> c = 0))"
proof -
  assume D: "0 \<le> discriminant a b c"
  define s where "s = sqrt (discriminant a b c)"
  have ss: "s * s = b * b - 4 * a * c" unfolding s_def using D by (rule sqrt_disc_sq)
  have s0: "0 \<le> s" unfolding s_def using D by simp
  have prod: "(- b - s) * (- b + s) = 4 * a * c"
    using ss by (simp add: algebra_simps)
  show ?thesis
  proof (cases "b = 0")
    case True
    then have "s * s = - 4 * a * c" using ss by simp
    then have "(s * s = 0) = (a = 0 \<or> c = 0)" by simp
    then have "(s = 0) = (a = 0 \<or> c = 0)" by simp
    then show ?thesis using True by (auto simp: eta_candidates_def s_def)
  next
    case False
    show ?thesis
    proof (cases "a = 0")
      case True
      with False show ?thesis by (simp add: eta_candidates_def)
    next
      case a: False
      show ?thesis
      proof (cases "c = 0")
        case True
        with False a show ?thesis by (simp add: eta_candidates_def)
      next
        case c: False
        have "(- b - s) * (- b + s) \<noteq> 0" using prod a c by simp
        then have "- b - s \<noteq> 0" "- b + s \<noteq> 0" by auto
        then show ?thesis using False a by (simp add: eta_candidates_def s_def)
      qed
    qed
  qed
qed

lemma transform_negative:
  "quadratic_coefficients vertices p = (a, b, c) \<Longrightarrow> discriminant a b c < 0
   \<Longrightarrow> transform_real_to_unit_cell_2d vertices p = Some (2, 2)"
  by (simp add: transform_real_to_unit_cell_2d_def)

lemma transform_small:
  "quadratic_coefficients vertices p = (a, b, c) \<Longrightarrow> 0 \<le> discriminant a b c
   \<Longrightarrow> eta_candidates a b c = Some (eta1, eta2)
   \<Longrightarrow> both_denominators_small vertices (closer_to_center eta1 eta2)
   \<Longrightarrow> transform_real_to_unit_cell_2d vertices p = Some (2, 2)"
  by (simp add: transform_real_to_unit_cell_2d_def both_denominators_small_def Let_def)

lemma transform_regular:
  "quadratic_coefficients vertices p = (a, b, c) \<Longrightarrow> 0 \<le> discriminant a b c
   \<Longrightarrow> eta_candidates a b c = Some (eta1, eta2)
   \<Longrightarrow> \<not> both_denominators_small vertices (closer_to_center eta1 eta2)
   \<Longrightarrow> \<exists>xi. transform_real_to_unit_cell_2d vertices p = Some (xi, closer_to_center eta1 eta2)"
  by (auto simp: transform_real_to_unit_cell_2d_def both_denominators_small_def Let_def)

lemma transform_None_iff:
  "quadratic_coefficients vertices p = (a, b, c) \<Longrightarrow> 0 \<le> discriminant a b c
   \<Longrightarrow> (transform_real_to_unit_cell_2d vertices p = None) = (eta_candidates a b c = None)"
  by (auto simp: transform_real_to_unit_cell_2d_def Let_def split: option.splits)

lemma closest_root:
  assumes D: "0 \<le> discriminant a b c" and c: "eta_candidates a b c = Some (eta1, eta2)"
  shows "is_root a b c (closer_to_center eta1 eta2)
       \<and> (\<forall>r. is_root a b c r \<longrightarrow> \<bar>closer_to_center eta1 eta2 - 1 / 2\<bar> \<le> \<bar>r - 1 / 2\<bar>)"
  using candidates_are_the_roots [OF D c] closer_to_center_cases [of eta1 eta2]
  by metis

text \<open>
  C4, as amended. Let \<open>a\<close>, \<open>b\<close>, \<open>c\<close> be the coefficients for four vertices and a
  point \<open>p\<close>. If the discriminant is negative the function returns \<open>(2, 2)\<close>. If it is not
  negative, the result is outside the real numbers exactly when \<open>b = 0\<close> and
  (\<open>a = 0\<close> or \<open>c = 0\<close>), where the stable formula divides by zero. In every other case,
  with \<open>eta\<close> the candidate closer to \<open>0.5\<close>: if both denominators for \<open>xi\<close> are at or
  below their tolerances the function returns \<open>(2, 2)\<close>; otherwise it returns a point
  \<open>(xi, eta)\<close>, \<open>eta\<close> is a root of \<open>a * eta^2 + b * eta + c = 0\<close>, and no root is closer
  to \<open>0.5\<close>. The converse, that \<open>(2, 2)\<close> is returned only in the first and third case,
  is not part of the statement: see the counterexample below.
\<close>

theorem transform_2d_cases:
  assumes "quadratic_coefficients vertices p = (a, b, c)"
  shows "(discriminant a b c < 0 \<longrightarrow> transform_real_to_unit_cell_2d vertices p = Some (2, 2))
       \<and> (0 \<le> discriminant a b c \<longrightarrow>
            (transform_real_to_unit_cell_2d vertices p = None) = (b = 0 \<and> (a = 0 \<or> c = 0)))
       \<and> (\<forall>eta1 eta2. 0 \<le> discriminant a b c \<and> eta_candidates a b c = Some (eta1, eta2) \<longrightarrow>
            (both_denominators_small vertices (closer_to_center eta1 eta2) \<longrightarrow>
               transform_real_to_unit_cell_2d vertices p = Some (2, 2))
          \<and> (\<not> both_denominators_small vertices (closer_to_center eta1 eta2) \<longrightarrow>
               (\<exists>xi. transform_real_to_unit_cell_2d vertices p
                        = Some (xi, closer_to_center eta1 eta2))
               \<and> is_root a b c (closer_to_center eta1 eta2)
               \<and> (\<forall>r. is_root a b c r \<longrightarrow>
                     \<bar>closer_to_center eta1 eta2 - 1 / 2\<bar> \<le> \<bar>r - 1 / 2\<bar>)))"
  using transform_negative [OF assms] transform_small [OF assms] transform_regular [OF assms]
    transform_None_iff [OF assms] candidates_None_iff [of a b c] closest_root [of a b c]
  by (intro conjI impI allI) (blast | simp)+

lemma ex_coeffs: "quadratic_coefficients unit_square (1 / 4, 1 / 2) = (0, 1, - 1 / 2)"
  by (simp add: quadratic_coefficients_def unit_square_def)

lemma ex_value: "transform_real_to_unit_cell_2d unit_square (1 / 4, 1 / 2) = Some (1 / 4, 1 / 2)"
  unfolding transform_real_to_unit_cell_2d_def ex_coeffs
  by (simp add: discriminant_def eta_candidates_def
        closer_to_center_def Let_def xi_denominator0_def subexpr0_def max_x_def unit_square_def)

lemma ex_candidates: "eta_candidates 0 1 (- 1 / 2) = Some (1 / 2, 1 / 2)"
  by (simp add: eta_candidates_def)

lemma ex_denominators:
  "\<not> both_denominators_small unit_square (closer_to_center (1 / 2) (1 / 2))"
  by (simp add: both_denominators_small_def closer_to_center_def xi_denominator0_def
        subexpr0_def max_x_def unit_square_def)

theorem transform_2d_cases_witness:
  "quadratic_coefficients unit_square (1 / 4, 1 / 2) = (0, 1, - 1 / 2)
   \<and> 0 \<le> discriminant 0 1 (- 1 / 2)
   \<and> eta_candidates 0 1 (- 1 / 2) = Some (1 / 2, 1 / 2)
   \<and> \<not> both_denominators_small unit_square (closer_to_center (1 / 2) (1 / 2))
   \<and> transform_real_to_unit_cell_2d unit_square (1 / 4, 1 / 2) = Some (1 / 4, 1 / 2)
   \<and> is_root 0 1 (- 1 / 2) (closer_to_center (1 / 2) (1 / 2))"
proof -
  have d: "0 \<le> discriminant 0 1 (- 1 / 2)" by (simp add: discriminant_def)
  from transform_2d_cases [OF ex_coeffs] d ex_candidates ex_denominators
  have "is_root 0 1 (- 1 / 2) (closer_to_center (1 / 2) (1 / 2))"
    by blast
  then show ?thesis using ex_coeffs d ex_candidates ex_denominators ex_value by blast
qed

text \<open>
  The claim C4 as it was stated fails in one direction: for the unit square and the point
  \<open>(2, 2)\<close> the discriminant is not negative and the first denominator is above its
  tolerance, and the function returns the point \<open>(2, 2)\<close>, which is the preimage of
  \<open>(2, 2)\<close> under the identity map of the unit square.
\<close>

theorem transform_2d_sentinel_counterexample:
  "transform_real_to_unit_cell_2d unit_square (2, 2) = Some (2, 2)
   \<and> quadratic_coefficients unit_square (2, 2) = (0, 1, - 2)
   \<and> \<not> discriminant 0 1 (- 2) < 0
   \<and> eta_candidates 0 1 (- 2) = Some (2, 2)
   \<and> \<not> both_denominators_small unit_square (closer_to_center 2 2)"
  by (simp add: transform_real_to_unit_cell_2d_def quadratic_coefficients_def discriminant_def
        eta_candidates_def closer_to_center_def Let_def xi_denominator0_def subexpr0_def
        max_x_def unit_square_def both_denominators_small_def)

lemma transform_2d_example_negative:
  "quadratic_coefficients skew_cell (- 1, - 2) = (1, 2, 2) \<and> discriminant 1 2 2 < 0
   \<and> transform_real_to_unit_cell_2d skew_cell (- 1, - 2) = Some (2, 2)"
  by (simp add: transform_real_to_unit_cell_2d_def quadratic_coefficients_def skew_cell_def
        discriminant_def)

lemma transform_2d_example_small:
  "transform_real_to_unit_cell_2d flat_cell (1, 5) = Some (2, 2)
   \<and> quadratic_coefficients flat_cell (1, 5) = (0, - 2, 1)
   \<and> eta_candidates 0 (- 2) 1 = Some (1 / 2, 1 / 2)
   \<and> both_denominators_small flat_cell (closer_to_center (1 / 2) (1 / 2))"
  by (simp add: transform_real_to_unit_cell_2d_def quadratic_coefficients_def discriminant_def
        eta_candidates_def closer_to_center_def Let_def xi_denominator0_def subexpr0_def
        xi_denominator1_def subexpr1_def max_y_def
        max_x_def flat_cell_def both_denominators_small_def)

section \<open>The closure of update flags\<close>

lemma body_as_fold:
  "requires_update_flags_body fl x = fold apply_rule (closure_rules fl) x"
  by (simp only: requires_update_flags_body_def closure_rules_def apply_rule_def Let_def
        fold_simps fst_conv snd_conv o_apply)

lemma loop_funpow:
  "requires_update_flags_loop fl i x = ((requires_update_flags_body fl) ^^ (5 - i)) x"
proof (induction fl i x rule: requires_update_flags_loop.induct)
  case (1 fl i out)
  show ?case
  proof (cases "i < 5")
    case True
    then have "5 - i = Suc (5 - (i + 1))" by simp
    then show ?thesis using 1 True
      by (simp add: funpow_swap1 requires_update_flags_loop.simps [of fl i out])
  next
    case False
    then show ?thesis by (simp add: requires_update_flags_loop.simps [of fl i out])
  qed
qed

lemma flags_le_refl: "flags_le x x"
  by (simp add: flags_le_def)

lemma flags_le_trans:
  assumes "flags_le x y" and "flags_le y z"
  shows "flags_le x z"
proof -
  have "x OR z = x OR (y OR z)" using assms(2) by (simp add: flags_le_def)
  also have "\<dots> = (x OR y) OR z" by (simp only: or.assoc)
  also have "\<dots> = z" using assms by (simp add: flags_le_def)
  finally show ?thesis by (simp add: flags_le_def)
qed

lemma apply_rule_le: "flags_le x (apply_rule r x)"
  by (simp add: flags_le_def apply_rule_def or.assoc [symmetric])

lemma fold_rules_le: "flags_le x (fold apply_rule rs x)"
proof (induction rs arbitrary: x)
  case Nil
  show ?case by (simp add: flags_le_refl)
next
  case (Cons r rs)
  show ?case using flags_le_trans [OF apply_rule_le Cons] by simp
qed

lemma rule_done_mono:
  assumes "flags_le x y" and "rule_done r x"
  shows "rule_done r y"
proof -
  have "y OR snd r = (y OR x) OR snd r" using assms(1) by (simp add: flags_le_def or.commute)
  also have "\<dots> = y OR (x OR snd r)" by (simp only: or.assoc)
  also have "\<dots> = y OR x" using assms(2) by (simp add: rule_done_def)
  also have "\<dots> = y" using assms(1) by (simp add: flags_le_def or.commute)
  finally show ?thesis by (simp add: rule_done_def)
qed

lemma rule_done_apply: "apply_rule r x \<noteq> x \<Longrightarrow> rule_done r (apply_rule r x) \<and> \<not> rule_done r x"
  by (auto simp: apply_rule_def rule_done_def or.assoc split: if_splits)

lemma all_done_fixed: "(\<forall>r \<in> set rs. rule_done r x) \<Longrightarrow> fold apply_rule rs x = x"
  by (induction rs arbitrary: x) (auto simp: apply_rule_def rule_done_def)

lemma pass_fixed_or_new:
  "fold apply_rule rs x = x \<or> (\<exists>r \<in> set rs. \<not> rule_done r x \<and> rule_done r (fold apply_rule rs x))"
proof (induction rs arbitrary: x)
  case Nil
  show ?case by simp
next
  case (Cons r rs)
  show ?case
  proof (cases "apply_rule r x = x")
    case True
    then show ?thesis using Cons [of x] by auto
  next
    case False
    then have "rule_done r (apply_rule r x)" "\<not> rule_done r x"
      using rule_done_apply by blast+
    then show ?thesis
      using rule_done_mono [OF fold_rules_le, of r "apply_rule r x" rs] by auto
  qed
qed

lemma pass_count:
  "fold apply_rule rs (((fold apply_rule rs) ^^ k) x) = ((fold apply_rule rs) ^^ k) x
   \<or> k \<le> card {r \<in> set rs. rule_done r (((fold apply_rule rs) ^^ k) x)}"
proof (induction k)
  case 0
  show ?case by simp
next
  case (Suc k)
  let ?p = "fold apply_rule rs"
  let ?S = "\<lambda>k. {r \<in> set rs. rule_done r ((?p ^^ k) x)}"
  show ?case
  proof (cases "?p ((?p ^^ k) x) = (?p ^^ k) x")
    case True
    then show ?thesis by simp
  next
    case False
    with Suc have c: "k \<le> card (?S k)" by blast
    from False pass_fixed_or_new [of rs "(?p ^^ k) x"]
    obtain r where r: "r \<in> set rs" "\<not> rule_done r ((?p ^^ k) x)" "rule_done r (?p ((?p ^^ k) x))"
      by blast
    have sub: "?S k \<subseteq> ?S (Suc k)"
      using rule_done_mono [OF fold_rules_le] by auto
    have "r \<in> ?S (Suc k)" "r \<notin> ?S k" using r by auto
    then have "?S k \<subset> ?S (Suc k)" using sub by blast
    then have "card (?S k) < card (?S (Suc k))"
      by (intro psubset_card_mono) auto
    then show ?thesis using c by simp
  qed
qed

lemma pass_length_fixed:
  "fold apply_rule rs (((fold apply_rule rs) ^^ length rs) x) = ((fold apply_rule rs) ^^ length rs) x"
proof -
  let ?p = "fold apply_rule rs"
  let ?y = "(?p ^^ length rs) x"
  let ?S = "{r \<in> set rs. rule_done r ?y}"
  from pass_count [of rs "length rs" x]
  consider "?p ?y = ?y" | "length rs \<le> card ?S" by blast
  then show ?thesis
  proof cases
    case 1
    then show ?thesis .
  next
    case 2
    have "card (set rs) \<le> length rs" by (rule card_length)
    then have "card (set rs) \<le> card ?S" using 2 by simp
    moreover have "?S \<subseteq> set rs" by auto
    ultimately have "?S = set rs"
      by (intro card_seteq) auto
    then have "\<forall>r \<in> set rs. rule_done r ?y" by blast
    then show ?thesis by (rule all_done_fixed)
  qed
qed

lemma body_fixed:
  "requires_update_flags_body fl (requires_update_flags fl x) = requires_update_flags fl x"
proof -
  have l: "length (closure_rules fl) = 5" by (simp add: closure_rules_def)
  have b: "requires_update_flags_body fl = fold apply_rule (closure_rules fl)"
    by (rule ext) (rule body_as_fold)
  have z: "5 - (0::nat) = 5" by simp
  show ?thesis
    using pass_length_fixed [of "closure_rules fl" x]
    unfolding requires_update_flags_def loop_funpow b l z .
qed

lemma funpow_fixed: "f y = y \<Longrightarrow> (f ^^ n) y = y"
  by (induction n) simp_all

lemma funpow_le: "(\<And>x. flags_le x (f x)) \<Longrightarrow> flags_le x ((f ^^ n) x)"
proof (induction n)
  case 0
  show ?case by (simp add: flags_le_refl)
next
  case (Suc n)
  have "flags_le x ((f ^^ n) x)" using Suc by simp
  moreover have "flags_le ((f ^^ n) x) (f ((f ^^ n) x))" using Suc.prems by simp
  ultimately show ?case using flags_le_trans by simp
qed

lemma ext1: "flags_le in_flags (requires_update_flags fl in_flags)"
proof -
  have "flags_le in_flags ((requires_update_flags_body fl ^^ 5) in_flags)"
    by (rule funpow_le) (simp only: body_as_fold fold_rules_le)
  then show ?thesis
    by (simp only: requires_update_flags_def loop_funpow diff_zero)
qed

text \<open>
  C8. \<open>requires_update_flags\<close> is extensive and idempotent, for every value of the flag
  constants: the result contains the input (\<open>out & in == in\<close>), and applying the function
  to its own result returns that result, so that five runs of the loop body reach a fixed
  point of the body.
\<close>

theorem requires_update_flags_closure:
  "requires_update_flags fl in_flags AND in_flags = in_flags
   \<and> requires_update_flags fl (requires_update_flags fl in_flags)
       = requires_update_flags fl in_flags"
proof -
  have "requires_update_flags fl in_flags AND in_flags
               = (in_flags OR requires_update_flags fl in_flags) AND in_flags"
    using ext1 [of in_flags fl] unfolding flags_le_def by simp
  then have e: "requires_update_flags fl in_flags AND in_flags = in_flags"
    by (simp only: word_ao_absorbs)
  have "(requires_update_flags_body fl ^^ 5) (requires_update_flags fl in_flags)
          = requires_update_flags fl in_flags"
    by (rule funpow_fixed) (rule body_fixed)
  then have i: "requires_update_flags fl (requires_update_flags fl in_flags)
       = requires_update_flags fl in_flags"
    by (simp only: requires_update_flags_def [of fl "requires_update_flags fl in_flags"]
          loop_funpow diff_zero)
  show ?thesis using e i by simp
qed

lemma ex1: "requires_update_flags example_flag_values 0x400 = 0x1C50"
  by (simp add: requires_update_flags_def requires_update_flags_loop.simps
        requires_update_flags_body_def example_flag_values_def)

theorem requires_update_flags_closure_witness:
  "requires_update_flags example_flag_values 0x400 = 0x1C50
   \<and> requires_update_flags example_flag_values 0x400 AND 0x400 = 0x400
   \<and> requires_update_flags example_flag_values 0x1C50 = 0x1C50"
  using requires_update_flags_closure [of example_flag_values "0x400"] ex1 by simp

lemma cond_mono: "flags_le x y \<Longrightarrow> x AND m \<noteq> 0 \<Longrightarrow> y AND m \<noteq> 0"
proof -
  assume le: "flags_le x y" and nz: "x AND m \<noteq> 0"
  have "y AND m = (x OR y) AND m" using le by (simp add: flags_le_def)
  also have "\<dots> = (x AND m) OR (y AND m)" by (simp add: bit.conj_disj_distrib2)
  finally have e: "y AND m = (x AND m) OR (y AND m)" .
  show "y AND m \<noteq> 0"
  proof
    assume z: "y AND m = 0"
    have "(x AND m) OR (y AND m) = 0" using e z by simp
    then have "x AND m = 0" by (simp only: or_eq_0_iff)
    then show False using nz by simp
  qed
qed

lemma rule_fires:
  "r \<in> set rs \<Longrightarrow> x AND fst r \<noteq> 0 \<Longrightarrow> rule_done r (fold apply_rule rs x)"
proof (induction rs arbitrary: x)
  case Nil
  then show ?case by simp
next
  case (Cons r0 rs)
  show ?case
  proof (cases "r = r0")
    case True
    then have "rule_done r (apply_rule r0 x)"
      using Cons.prems(2) by (simp add: apply_rule_def rule_done_def or.assoc)
    then show ?thesis using rule_done_mono [OF fold_rules_le] by simp
  next
    case False
    then have "r \<in> set rs" using Cons.prems(1) by simp
    moreover have "apply_rule r0 x AND fst r \<noteq> 0"
      using cond_mono [OF apply_rule_le Cons.prems(2)] .
    ultimately show ?thesis using Cons.IH by simp
  qed
qed


lemma requires_contains_rule:
  assumes "r \<in> set (closure_rules fl)" "x AND fst r \<noteq> 0"
  shows "rule_done r (requires_update_flags fl x)"
proof -
  have b: "requires_update_flags_body fl = fold apply_rule (closure_rules fl)"
    by (rule ext) (rule body_as_fold)
  have "rule_done r (requires_update_flags_body fl x)"
    unfolding b using assms by (rule rule_fires)
  moreover have "flags_le (requires_update_flags_body fl x)
      ((requires_update_flags_body fl ^^ 4) (requires_update_flags_body fl x))"
    by (rule funpow_le) (simp only: body_as_fold fold_rules_le)
  moreover have "(requires_update_flags_body fl ^^ 4) (requires_update_flags_body fl x)
      = requires_update_flags fl x"
    by (simp only: requires_update_flags_def loop_funpow diff_zero funpow_swap1 [symmetric])
       (simp add: eval_nat_numeral)
  ultimately show ?thesis using rule_done_mono by metis
qed

lemma done_nonzero: "rule_done r x \<Longrightarrow> snd r \<noteq> 0 \<Longrightarrow> x AND snd r \<noteq> 0"
proof -
  assume d: "rule_done r x" and nz: "snd r \<noteq> 0"
  have "x AND snd r = (x OR snd r) AND snd r" using d by (simp add: rule_done_def)
  also have "\<dots> = snd r" by (simp only: word_ao_absorbs)
  finally show ?thesis using nz by simp
qed

lemma jacobians_need_contravariant:
  assumes "update_contravariant_transformation fl \<noteq> 0"
    and "requested AND update_jacobians fl \<noteq> 0"
  shows "requires_update_flags fl requested AND update_contravariant_transformation fl \<noteq> 0"
    and "requires_update_flags fl requested AND update_jacobians fl \<noteq> 0"
proof -
  let ?r = "(update_covariant_transformation fl OR update_JxW_values fl OR update_jacobians fl
        OR update_jacobian_grads fl OR update_boundary_forms fl OR update_normal_vectors fl,
      update_contravariant_transformation fl)"
  have m: "requested AND fst ?r \<noteq> 0"
    using assms(2) by (simp add: bit.conj_disj_distrib or_eq_0_iff)
  have "?r \<in> set (closure_rules fl)" by (simp add: closure_rules_def)
  from requires_contains_rule [OF this m] done_nonzero [of ?r] assms(1)
  show "requires_update_flags fl requested AND update_contravariant_transformation fl \<noteq> 0"
    by simp
  show "requires_update_flags fl requested AND update_jacobians fl \<noteq> 0"
    using cond_mono [OF ext1 assms(2)] .
qed


section \<open>The hard-coded shape functions\<close>

lemma for_each_from:
  assumes step: "\<And>k t. i \<le> k \<Longrightarrow> k < n \<Longrightarrow> I k t \<Longrightarrow> \<exists>t'. body k t = Inr t' \<and> I (Suc k) t'"
  shows "i \<le> n \<Longrightarrow> I i s \<Longrightarrow> \<exists>s'. for_each [i..<n] body s = Inr s' \<and> I n s'"
  using step
proof (induction "n - i" arbitrary: i s)
  case 0
  then show ?case by simp
next
  case (Suc m)
  then have lt: "i < n" by simp
  from Suc.prems(3) [of i s] lt Suc.prems(2)
  obtain t where t: "body i s = Inr t" "I (Suc i) t" by auto
  have "\<exists>s'. for_each [Suc i..<n] body t = Inr s' \<and> I n s'"
  proof (rule Suc.hyps(1))
    show "m = n - Suc i" using Suc.hyps(2) by simp
    show "Suc i \<le> n" using lt by simp
    show "I (Suc i) t" by (rule t)
    show "\<And>k t. Suc i \<le> k \<Longrightarrow> k < n \<Longrightarrow> I k t \<Longrightarrow> \<exists>t'. body k t = Inr t' \<and> I (Suc k) t'"
      using Suc.prems(3) by simp
  qed
  then show ?case using lt t by (simp add: upt_conv_Cons and_then_def)
qed

lemma for_each_upt_invariant:
  assumes "I 0 s"
    and "\<And>k t. k < n \<Longrightarrow> I k t \<Longrightarrow> \<exists>t'. body k t = Inr t' \<and> I (Suc k) t'"
  shows "\<exists>s'. for_each [0..<n] body s = Inr s' \<and> I n s'"
  using for_each_from [of 0 n I body s] assms by simp

lemma for_each_from_rule:
  assumes step: "\<And>k t t'. i \<le> k \<Longrightarrow> k < n \<Longrightarrow> I k t \<Longrightarrow> body k t = Inr t' \<Longrightarrow> I (Suc k) t'"
  shows "for_each [i..<n] body s = Inr s' \<Longrightarrow> i \<le> n \<Longrightarrow> I i s \<Longrightarrow> I n s'"
  using step
proof (induction "n - i" arbitrary: i s)
  case 0
  then show ?case by simp
next
  case (Suc d)
  then have lt: "i < n" by simp
  from Suc.prems(1) lt obtain t where t: "body i s = Inr t" "for_each [Suc i..<n] body t = Inr s'"
    by (auto simp: upt_conv_Cons and_then_def split: sum.splits)
  have it: "I (Suc i) t" using Suc.prems(4) [of i s t] lt Suc.prems(3) t(1) by simp
  show ?case
  proof (rule Suc.hyps(1) [of "Suc i" t])
    show "d = n - Suc i" using Suc.hyps(2) by simp
    show "for_each [Suc i..<n] body t = Inr s'" by (rule t)
    show "Suc i \<le> n" using lt by simp
    show "I (Suc i) t" by (rule it)
    show "\<And>k t t'. Suc i \<le> k \<Longrightarrow> k < n \<Longrightarrow> I k t \<Longrightarrow> body k t = Inr t' \<Longrightarrow> I (Suc k) t'"
      using Suc.prems(4) by simp
  qed
qed

lemma for_each_upt_rule:
  assumes "for_each [0..<n] body s = Inr s'" "I 0 s"
    and "\<And>k t t'. k < n \<Longrightarrow> I k t \<Longrightarrow> body k t = Inr t' \<Longrightarrow> I (Suc k) t'"
  shows "I n s'"
  using for_each_from_rule [of 0 n I body s s'] assms by simp

lemma index_less: "k < N \<Longrightarrow> s < m \<Longrightarrow> k * m + s < m * (N::nat)"
proof -
  assume a: "k < N" "s < m"
  then have "k * m + s < k * m + m" by simp
  also have "\<dots> = (Suc k) * m" by simp
  also have "\<dots> \<le> N * m" using a by (intro mult_le_mono1) simp
  finally show ?thesis by (simp add: mult.commute)
qed

lemma index_eq: "s < m \<Longrightarrow> s' < m \<Longrightarrow> (k * m + s = k' * m + s') = (k = k' \<and> s = (s'::nat))"
proof
  assume a: "s < m" "s' < m" "k * m + s = k' * m + s'"
  from a(3) have "(k * m + s) div m = (k' * m + s') div m" by simp
  then have "k = k'" using a(1,2) by simp
  then show "k = k' \<and> s = s'" using a by simp
qed simp

lemma n_shape_functions_set_shape [simp]:
  "n_shape_functions (set_shape d k s v) = n_shape_functions d"
  by (simp add: set_shape_def)

lemma n_shape_functions_set_derivative [simp]:
  "n_shape_functions (set_derivative d k s j v) = n_shape_functions d"
  by (simp add: set_derivative_def)

lemma shape_values_set_derivative [simp]:
  "shape_values (set_derivative d k s j v) = shape_values d"
  by (simp add: set_derivative_def)

lemma shape_derivatives_set_shape [simp]:
  "shape_derivatives (set_shape d k s v) = shape_derivatives d"
  by (simp add: set_shape_def)

lemma length_set_shape [simp]:
  "length (shape_values (set_shape d k s v)) = length (shape_values d)"
  by (simp add: set_shape_def)

lemma length_set_derivative [simp]:
  "length (shape_derivatives (set_derivative d k s j v)) = length (shape_derivatives d)"
  by (simp add: set_derivative_def)

lemma shape_set_derivative [simp]: "shape (set_derivative d k s j v) k' s' = shape d k' s'"
  by (simp add: shape_def)

lemma shape_set_shape:
  assumes "length (shape_values d) = n_shape_functions d * N" "k < N"
    "s < n_shape_functions d" "s' < n_shape_functions d"
  shows "shape (set_shape d k s v) k' s' = (if k = k' \<and> s = s' then v else shape d k' s')"
  using assms index_less [of k N s "n_shape_functions d"]
  by (simp add: shape_def set_shape_def nth_list_update index_eq)

lemma tensors_have_nth:
  "tensors_have dim_t d \<Longrightarrow> i < length (shape_derivatives d) \<Longrightarrow> length (shape_derivatives d ! i) = dim_t"
  by (simp add: tensors_have_def list_all_length)

lemma tensors_have_set_derivative:
  "tensors_have dim_t d \<Longrightarrow> tensors_have dim_t (set_derivative d k s j v)"
  unfolding tensors_have_def set_derivative_def derivative_def
  by (cases "k * n_shape_functions d + s < length (shape_derivatives d)")
     (auto simp: list_all_length nth_list_update)

lemma derivative_set_derivative:
  assumes "length (shape_derivatives d) = n_shape_functions d * N" "k < N"
    "s < n_shape_functions d" "s' < n_shape_functions d" "tensors_have dim_t d" "j < dim_t"
  shows "derivative (set_derivative d k s j v) k' s' ! j'
      = (if k = k' \<and> s = s' \<and> j = j' then v else derivative d k' s' ! j')"
  using assms index_less [of k N s "n_shape_functions d"]
    tensors_have_nth [of dim_t d "k * n_shape_functions d + s"]
  by (auto simp: derivative_def set_derivative_def nth_list_update index_eq)

lemma derivative_set_shape [simp]: "derivative (set_shape d k s v) k' s' = derivative d k' s'"
  by (simp add: derivative_def)

lemma tensors_have_set_shape [simp]: "tensors_have dim_t (set_shape d k s v) = tensors_have dim_t d"
  by (simp add: tensors_have_def)

lemma tensors_have_cong:
  "shape_derivatives u = shape_derivatives t \<Longrightarrow> tensors_have dim_t u = tensors_have dim_t t"
  by (simp add: tensors_have_def)

lemma shape_loop_step:
  assumes k: "k < N"
    and inv: "shape_loop_inv m N dim_t PV PD k t"
    and V: "values_writer m N PV PD k wv"
    and D: "derivatives_writer m N dim_t PV PD k wd"
  shows "\<exists>t'. and_then
          (if length (shape_values t) \<noteq> 0
           then Assert (length (shape_values t) = m * N) ExcInternalError (Inr (wv t))
           else Inr t)
          (\<lambda>data.
            if length (shape_derivatives data) \<noteq> 0
            then Assert (length (shape_derivatives data) = m * N) ExcInternalError (Inr (wd data))
            else Inr data) = Inr t' \<and> shape_loop_inv m N dim_t PV PD (Suc k) t'"
proof -
  define t1 where "t1 = (if length (shape_values t) \<noteq> 0 then wv t else t)"
  define t2 where "t2 = (if length (shape_derivatives t1) \<noteq> 0 then wd t1 else t1)"
  have sz: "shape_arrays_sized m N dim_t t"
    and pv: "length (shape_values t) \<noteq> 0 \<Longrightarrow> \<forall>k' < k. PV t k'"
    and pd: "length (shape_derivatives t) \<noteq> 0 \<Longrightarrow> \<forall>k' < k. PD t k'"
    using inv by (simp_all add: shape_loop_inv_def)
  have pos: "0 < N" using k by simp
  have nsf: "n_shape_functions t = m" using sz by (simp add: shape_arrays_sized_def)
  have first: "(if length (shape_values t) \<noteq> 0
           then Assert (length (shape_values t) = m * N) ExcInternalError (Inr (wv t))
           else Inr t) = Inr t1"
    using sz by (auto simp: t1_def Assert_def shape_arrays_sized_def)
  have t1: "shape_arrays_sized m N dim_t t1
      \<and> (length (shape_values t1) \<noteq> 0 \<longrightarrow> (\<forall>k' < Suc k. PV t1 k'))
      \<and> (length (shape_derivatives t1) \<noteq> 0 \<longrightarrow> (\<forall>k' < k. PD t1 k'))"
  proof (cases "length (shape_values t) = 0")
    case True
    then show ?thesis using sz pd by (simp add: t1_def)
  next
    case False
    then have len: "length (shape_values t) = m * N"
      using sz by (simp add: shape_arrays_sized_def)
    from V nsf len have w: "n_shape_functions (wv t) = m" "length (shape_values (wv t)) = m * N"
      "shape_derivatives (wv t) = shape_derivatives t" "PV (wv t) k"
      "\<And>k'. k' \<noteq> k \<Longrightarrow> PV (wv t) k' = PV t k'" "\<And>k'. PD (wv t) k' = PD t k'"
      unfolding values_writer_def by blast+
    have "tensors_have dim_t (wv t)"
      using sz tensors_have_cong [OF w(3)] by (simp add: shape_arrays_sized_def)
    then have a: "shape_arrays_sized m N dim_t (wv t)"
      using sz w(1,2,3) by (simp add: shape_arrays_sized_def)
    have b: "\<forall>k' < Suc k. PV (wv t) k'"
      using w(4,5) pv False by (auto simp: less_Suc_eq)
    have c: "length (shape_derivatives (wv t)) \<noteq> 0 \<longrightarrow> (\<forall>k' < k. PD (wv t) k')"
      using w(3,6) pd by simp
    show ?thesis using False a b c by (simp add: t1_def)
  qed
  then have sz1: "shape_arrays_sized m N dim_t t1"
    and pv1: "length (shape_values t1) \<noteq> 0 \<Longrightarrow> \<forall>k' < Suc k. PV t1 k'"
    and pd1: "length (shape_derivatives t1) \<noteq> 0 \<Longrightarrow> \<forall>k' < k. PD t1 k'"
    by simp_all
  have nsf1: "n_shape_functions t1 = m" using sz1 by (simp add: shape_arrays_sized_def)
  have second: "(if length (shape_derivatives t1) \<noteq> 0
            then Assert (length (shape_derivatives t1) = m * N) ExcInternalError (Inr (wd t1))
            else Inr t1) = Inr t2"
    using sz1 by (auto simp: t2_def Assert_def shape_arrays_sized_def)
  have t2: "shape_loop_inv m N dim_t PV PD (Suc k) t2"
  proof (cases "length (shape_derivatives t1) = 0")
    case True
    then show ?thesis using sz1 pv1 by (simp add: t2_def shape_loop_inv_def)
  next
    case False
    then have len: "length (shape_derivatives t1) = m * N" and th: "tensors_have dim_t t1"
      using sz1 by (simp_all add: shape_arrays_sized_def)
    from D nsf1 len th have w: "n_shape_functions (wd t1) = m"
      "length (shape_derivatives (wd t1)) = m * N" "tensors_have dim_t (wd t1)"
      "shape_values (wd t1) = shape_values t1" "PD (wd t1) k"
      "\<And>k'. k' \<noteq> k \<Longrightarrow> PD (wd t1) k' = PD t1 k'" "\<And>k'. PV (wd t1) k' = PV t1 k'"
      unfolding derivatives_writer_def by blast+
    have a: "shape_arrays_sized m N dim_t (wd t1)"
      using sz1 w(1,2,3,4) by (simp add: shape_arrays_sized_def)
    have b: "\<forall>k' < Suc k. PD (wd t1) k'"
      using w(5,6) pd1 False by (auto simp: less_Suc_eq)
    have c: "length (shape_values (wd t1)) \<noteq> 0 \<longrightarrow> (\<forall>k' < Suc k. PV (wd t1) k')"
      using w(4,7) pv1 by simp
    show ?thesis using False a b c by (simp add: t2_def shape_loop_inv_def)
  qed
  show ?thesis using first second t2 by (auto simp: and_then_def)
qed

lemma shape_loop_result:
  assumes sz: "shape_arrays_sized m N dim_t data"
    and V: "\<And>k. k < N \<Longrightarrow> values_writer m N PV PD k (wv k)"
    and D: "\<And>k. k < N \<Longrightarrow> derivatives_writer m N dim_t PV PD k (wd k)"
  shows "\<exists>data'. compute_shape_function_values_loop m N wv wd data = Inr data'
           \<and> shape_loop_inv m N dim_t PV PD N data'"
  unfolding compute_shape_function_values_loop_def
proof (rule for_each_upt_invariant [where I = "shape_loop_inv m N dim_t PV PD"])
  show "shape_loop_inv m N dim_t PV PD 0 data" using sz by (simp add: shape_loop_inv_def)
next
  fix k t
  assume "k < N" "shape_loop_inv m N dim_t PV PD k t"
  then show "\<exists>t'. and_then
          (if length (shape_values t) \<noteq> 0
           then Assert (length (shape_values t) = m * N) ExcInternalError (Inr (wv k t))
           else Inr t)
          (\<lambda>data.
            if length (shape_derivatives data) \<noteq> 0
            then Assert (length (shape_derivatives data) = m * N) ExcInternalError (Inr (wd k data))
            else Inr data) = Inr t' \<and> shape_loop_inv m N dim_t PV PD (Suc k) t'"
    using V D by (intro shape_loop_step) auto
qed

lemma sum_2: "(\<Sum>i<(2::nat). f i) = f 0 + (f 1 :: real)"
  by (simp add: eval_nat_numeral)

lemma sum_4: "(\<Sum>i<(4::nat). f i) = f 0 + f 1 + f 2 + (f 3 :: real)"
  by (simp add: eval_nat_numeral)

lemma sum_8: "(\<Sum>i<(8::nat). f i) = f 0 + f 1 + f 2 + f 3 + f 4 + f 5 + f 6 + (f 7 :: real)"
  by (simp add: eval_nat_numeral)

lemma upt_1: "[0..<1] = [0::nat]" by simp

lemma upt_2: "[0..<2] = [0, 1::nat]" by (simp add: eval_nat_numeral upt_rec)

lemma upt_3: "[0..<3] = [0, 1, 2::nat]" by (simp add: eval_nat_numeral upt_rec)

lemma values_writer_1:
  assumes "k < N"
  shows "values_writer 2 N (partition_of_unity 2) (gradients_cancel 2 1) k (assign_shape_values_1 exact_arithmetic k p)"
  using assms unfolding values_writer_def
  by (simp add: partition_of_unity_def gradients_cancel_def shape_values_sum_def
        shape_derivatives_sum_def assign_shape_values_1_def exact_arithmetic_def Let_def sum_2 upt_1
        shape_set_shape [where N = N])

lemma derivatives_writer_1:
  assumes "k < N"
  shows "derivatives_writer 2 N 1 (partition_of_unity 2) (gradients_cancel 2 1) k
           (assign_shape_derivatives_1 exact_arithmetic k p)"
  using assms unfolding derivatives_writer_def
  by (simp add: partition_of_unity_def gradients_cancel_def shape_values_sum_def
        shape_derivatives_sum_def assign_shape_derivatives_1_def exact_arithmetic_def Let_def sum_2 upt_1
        derivative_set_derivative [where N = N and dim_t = 1] tensors_have_set_derivative)

lemma values_writer_2:
  assumes "k < N"
  shows "values_writer 4 N (partition_of_unity 4) (gradients_cancel 4 2) k (assign_shape_values_2 exact_arithmetic k p)"
  using assms unfolding values_writer_def
  by (simp add: partition_of_unity_def gradients_cancel_def shape_values_sum_def
        shape_derivatives_sum_def assign_shape_values_2_def exact_arithmetic_def Let_def sum_4 upt_2
        shape_set_shape [where N = N] algebra_simps)

lemma derivatives_writer_2:
  assumes "k < N"
  shows "derivatives_writer 4 N 2 (partition_of_unity 4) (gradients_cancel 4 2) k
           (assign_shape_derivatives_2 exact_arithmetic k p)"
  using assms unfolding derivatives_writer_def
  by (simp add: partition_of_unity_def gradients_cancel_def shape_values_sum_def
        shape_derivatives_sum_def assign_shape_derivatives_2_def exact_arithmetic_def Let_def sum_4 upt_2
        derivative_set_derivative [where N = N and dim_t = 2] tensors_have_set_derivative)

lemma values_writer_3:
  assumes "k < N"
  shows "values_writer 8 N (partition_of_unity 8) (gradients_cancel 8 3) k (assign_shape_values_3 exact_arithmetic k p)"
  using assms unfolding values_writer_def
  by (simp add: partition_of_unity_def gradients_cancel_def shape_values_sum_def
        shape_derivatives_sum_def assign_shape_values_3_def exact_arithmetic_def Let_def sum_8 upt_3
        shape_set_shape [where N = N] algebra_simps)

lemma derivatives_writer_3:
  assumes "k < N"
  shows "derivatives_writer 8 N 3 (partition_of_unity 8) (gradients_cancel 8 3) k
           (assign_shape_derivatives_3 exact_arithmetic k p)"
  using assms unfolding derivatives_writer_def
  by (simp add: partition_of_unity_def gradients_cancel_def shape_values_sum_def
        shape_derivatives_sum_def assign_shape_derivatives_3_def exact_arithmetic_def Let_def sum_8 upt_3
        derivative_set_derivative [where N = N and dim_t = 3] tensors_have_set_derivative
        algebra_simps)

lemma shape_loop_lengths:
  assumes res: "compute_shape_function_values_loop m N wv wd data = Inr data'"
    and V: "\<And>k u. length (shape_values (wv k u)) = length (shape_values u)
                  \<and> length (shape_derivatives (wv k u)) = length (shape_derivatives u)"
    and D: "\<And>k u. length (shape_values (wd k u)) = length (shape_values u)
                  \<and> length (shape_derivatives (wd k u)) = length (shape_derivatives u)"
  shows "length (shape_values data') = length (shape_values data)
       \<and> length (shape_derivatives data') = length (shape_derivatives data)"
proof (rule for_each_upt_rule [OF res [unfolded compute_shape_function_values_loop_def],
        where I = "\<lambda>k t. length (shape_values t) = length (shape_values data)
                         \<and> length (shape_derivatives t) = length (shape_derivatives data)"])
  show "length (shape_values data) = length (shape_values data)
       \<and> length (shape_derivatives data) = length (shape_derivatives data)" by simp
next
  fix k t t'
  assume "length (shape_values t) = length (shape_values data)
            \<and> length (shape_derivatives t) = length (shape_derivatives data)"
    and "and_then
          (if length (shape_values t) \<noteq> 0
           then Assert (length (shape_values t) = m * N) ExcInternalError (Inr (wv k t))
           else Inr t)
          (\<lambda>data.
            if length (shape_derivatives data) \<noteq> 0
            then Assert (length (shape_derivatives data) = m * N) ExcInternalError (Inr (wd k data))
            else Inr data) = Inr t'"
  then have I: "length (shape_values t) = length (shape_values data)
            \<and> length (shape_derivatives t) = length (shape_derivatives data)"
    and "\<exists>t1. (t1 = wv k t \<or> t1 = t) \<and> (t' = wd k t1 \<or> t' = t1)"
    by (auto simp: and_then_def Assert_def split: if_splits)
  then obtain t1 where t1: "t1 = wv k t \<or> t1 = t" and t': "t' = wd k t1 \<or> t' = t1"
    by blast
  have l1: "length (shape_values t1) = length (shape_values t)
            \<and> length (shape_derivatives t1) = length (shape_derivatives t)"
    using t1 V [of k t] by auto
  have l2: "length (shape_values t') = length (shape_values t1)
            \<and> length (shape_derivatives t') = length (shape_derivatives t1)"
    using t' D [of k t1] by auto
  show "length (shape_values t') = length (shape_values data)
            \<and> length (shape_derivatives t') = length (shape_derivatives data)"
    using I l1 l2 by simp
qed

lemma assign_lengths:
  "length (shape_values (assign_shape_values_1 ar k p1 u)) = length (shape_values u)
     \<and> length (shape_derivatives (assign_shape_values_1 ar k p1 u)) = length (shape_derivatives u)"
  "length (shape_values (assign_shape_derivatives_1 ar k p1 u)) = length (shape_values u)
     \<and> length (shape_derivatives (assign_shape_derivatives_1 ar k p1 u)) = length (shape_derivatives u)"
  "length (shape_values (assign_shape_values_2 ar k p2 u)) = length (shape_values u)
     \<and> length (shape_derivatives (assign_shape_values_2 ar k p2 u)) = length (shape_derivatives u)"
  "length (shape_values (assign_shape_derivatives_2 ar k p2 u)) = length (shape_values u)
     \<and> length (shape_derivatives (assign_shape_derivatives_2 ar k p2 u)) = length (shape_derivatives u)"
  "length (shape_values (assign_shape_values_3 ar k p3 u)) = length (shape_values u)
     \<and> length (shape_derivatives (assign_shape_values_3 ar k p3 u)) = length (shape_derivatives u)"
  "length (shape_values (assign_shape_derivatives_3 ar k p3 u)) = length (shape_values u)
     \<and> length (shape_derivatives (assign_shape_derivatives_3 ar k p3 u)) = length (shape_derivatives u)"
  by (simp_all add: assign_shape_values_1_def assign_shape_derivatives_1_def
        assign_shape_values_2_def assign_shape_derivatives_2_def
        assign_shape_values_3_def assign_shape_derivatives_3_def exact_arithmetic_def Let_def)

lemma sums_from_inv:
  assumes "shape_loop_inv m N dim_t (partition_of_unity m) (gradients_cancel m dim_t) N data'"
    and "length (shape_values data') = length (shape_values data)
       \<and> length (shape_derivatives data') = length (shape_derivatives data)"
  shows "sums_at_every_point m N dim_t data data'"
  using assms
  by (auto simp: sums_at_every_point_def shape_loop_inv_def partition_of_unity_def
        gradients_cancel_def list_all_iff)

text \<open>
  In the arithmetic of the machine the derivatives are stored in pairs of opposite values:
  rounding does not depend on the sign, so that \<open>y - 1.\<close> is the negative of
  \<open>1. - y\<close> and a product changes its sign with a factor.
\<close>

lemma round_binary64_opposite:
  "s \<noteq> t \<Longrightarrow> opposite (round_binary64 s q) (round_binary64 t q)"
  by (simp add: round_binary64_def split: option.splits)

lemma round_binary64_zero: "round_binary64 s 0 = Finite s 0"
  by (simp add: round_binary64_def round_magnitude_def)

lemma opposite_value: "opposite a b \<Longrightarrow> binary64_value a = - binary64_value b"
  by (cases a; cases b) (auto simp: with_sign_def)

lemma opposite_neg: "opposite (binary64_neg a) a"
  by (cases a) simp_all

lemma opposite_sub: "opposite (binary64_sub a b) (binary64_sub b a)"
proof (cases a; cases b)
  fix s x t y
  assume a: "a = Finite s x" and b: "b = Finite t y"
  define r where "r = with_sign s x + with_sign (\<not> t) y"
  define r' where "r' = with_sign t y + with_sign (\<not> s) x"
  have rr: "r' = - r" by (simp add: r_def r'_def with_sign_def)
  show ?thesis
  proof (cases "r = 0")
    case True
    then show ?thesis
      using rr a b by (simp add: binary64_sub_def r_def [symmetric] r'_def [symmetric])
  next
    case False
    have "opposite (round_binary64 (r < 0) \<bar>r\<bar>) (round_binary64 (- r < 0) \<bar>r\<bar>)"
      using False by (intro round_binary64_opposite) auto
    then show ?thesis
      using False rr a b
      by (simp add: binary64_sub_def r_def [symmetric] r'_def [symmetric] Let_def)
  qed
qed (auto simp: binary64_sub_def)

lemma opposite_mul_left: "opposite a b \<Longrightarrow> opposite (binary64_mul a c) (binary64_mul b c)"
  by (cases a; cases b; cases c)
     (auto simp: round_binary64_zero intro: round_binary64_opposite)

lemma opposite_mul_right: "opposite a b \<Longrightarrow> opposite (binary64_mul c a) (binary64_mul c b)"
  by (cases a; cases b; cases c)
     (auto simp: round_binary64_zero intro: round_binary64_opposite)

lemma value_neg: "binary64_value (binary64_neg a) = - binary64_value a"
  by (rule opposite_value) (rule opposite_neg)

lemma value_sub_one:
  "binary64_value (binary64_sub a (binary64_of_int 1))
     = - binary64_value (binary64_sub (binary64_of_int 1) a)"
  by (rule opposite_value) (rule opposite_sub)

lemma value_mul_neg:
  "binary64_value (binary64_mul (binary64_neg a) c) = - binary64_value (binary64_mul a c)"
  by (rule opposite_value) (rule opposite_mul_left, rule opposite_neg)

lemma value_mul_sub_one:
  "binary64_value (binary64_mul (binary64_sub a (binary64_of_int 1)) c)
     = - binary64_value (binary64_mul (binary64_sub (binary64_of_int 1) a) c)"
  by (rule opposite_value) (rule opposite_mul_left, rule opposite_sub)

lemma value_mul_sub_one_right:
  "binary64_value (binary64_mul c (binary64_sub a (binary64_of_int 1)))
     = - binary64_value (binary64_mul c (binary64_sub (binary64_of_int 1) a))"
  by (rule opposite_value) (rule opposite_mul_right, rule opposite_sub)

lemmas value_cancel = value_neg value_sub_one value_mul_neg value_mul_sub_one
  value_mul_sub_one_right

lemma rsum_2: "(\<Sum>i<(2::nat). f i) = f 0 + (f 1 :: rat)"
  by (simp add: eval_nat_numeral)

lemma rsum_4: "(\<Sum>i<(4::nat). f i) = f 0 + f 1 + f 2 + (f 3 :: rat)"
  by (simp add: eval_nat_numeral)

lemma rsum_8: "(\<Sum>i<(8::nat). f i) = f 0 + f 1 + f 2 + f 3 + f 4 + f 5 + f 6 + (f 7 :: rat)"
  by (simp add: eval_nat_numeral)

lemma stored_values_writer:
  assumes "\<And>u. n_shape_functions (wv u) = n_shape_functions u
             \<and> length (shape_values (wv u)) = length (shape_values u)
             \<and> shape_derivatives (wv u) = shape_derivatives u"
  shows "values_writer m N (\<lambda>d k. True) (stored_gradients_cancel m dim_t) k wv"
  using assms
  by (simp add: values_writer_def stored_gradients_cancel_def stored_derivatives_sum_def
        derivative_def)

lemma assign_values_frame:
  "n_shape_functions (assign_shape_values_1 ar k p1 u) = n_shape_functions u
     \<and> length (shape_values (assign_shape_values_1 ar k p1 u)) = length (shape_values u)
     \<and> shape_derivatives (assign_shape_values_1 ar k p1 u) = shape_derivatives u"
  "n_shape_functions (assign_shape_values_2 ar k p2 u) = n_shape_functions u
     \<and> length (shape_values (assign_shape_values_2 ar k p2 u)) = length (shape_values u)
     \<and> shape_derivatives (assign_shape_values_2 ar k p2 u) = shape_derivatives u"
  "n_shape_functions (assign_shape_values_3 ar k p3 u) = n_shape_functions u
     \<and> length (shape_values (assign_shape_values_3 ar k p3 u)) = length (shape_values u)
     \<and> shape_derivatives (assign_shape_values_3 ar k p3 u) = shape_derivatives u"
  by (simp_all add: assign_shape_values_1_def assign_shape_values_2_def
        assign_shape_values_3_def Let_def)

lemma stored_derivatives_writer_1:
  assumes "k < N"
  shows "derivatives_writer 2 N 1 (\<lambda>d k. True) (stored_gradients_cancel 2 1) k
           (assign_shape_derivatives_1 binary64_arithmetic k p)"
  using assms unfolding derivatives_writer_def
  by (simp add: stored_gradients_cancel_def stored_derivatives_sum_def
        assign_shape_derivatives_1_def binary64_arithmetic_def Let_def rsum_2 upt_1
        derivative_set_derivative [where N = N and dim_t = 1] tensors_have_set_derivative
        value_cancel)

lemma stored_derivatives_writer_2:
  assumes "k < N"
  shows "derivatives_writer 4 N 2 (\<lambda>d k. True) (stored_gradients_cancel 4 2) k
           (assign_shape_derivatives_2 binary64_arithmetic k p)"
  using assms unfolding derivatives_writer_def
  by (simp add: stored_gradients_cancel_def stored_derivatives_sum_def
        assign_shape_derivatives_2_def binary64_arithmetic_def Let_def rsum_4 upt_2
        derivative_set_derivative [where N = N and dim_t = 2] tensors_have_set_derivative
        value_cancel)

lemma stored_derivatives_writer_3:
  assumes "k < N"
  shows "derivatives_writer 8 N 3 (\<lambda>d k. True) (stored_gradients_cancel 8 3) k
           (assign_shape_derivatives_3 binary64_arithmetic k p)"
  using assms unfolding derivatives_writer_def
  by (simp add: stored_gradients_cancel_def stored_derivatives_sum_def
        assign_shape_derivatives_3_def binary64_arithmetic_def Let_def rsum_8 upt_3
        derivative_set_derivative [where N = N and dim_t = 3] tensors_have_set_derivative
        value_cancel)

lemma stored_from_inv:
  assumes "shape_loop_inv m N dim_t (\<lambda>d k. True) (stored_gradients_cancel m dim_t) N data'"
    and "length (shape_values data') = length (shape_values data)
       \<and> length (shape_derivatives data') = length (shape_derivatives data)"
  shows "stored_derivatives_cancel m N dim_t data data'"
  using assms
  by (auto simp: stored_derivatives_cancel_def shape_loop_inv_def stored_gradients_cancel_def
        list_all_iff)

text \<open>
  C9, as amended. For arrays sized for \<open>2\<close>, \<open>4\<close> and \<open>8\<close> shape functions, the
  functions for one, two and three dimensions return without a failed assertion and the
  arrays keep their sizes. Over exact real arithmetic, at every unit point the values they
  have written sum to \<open>1\<close> and, for every coordinate direction, the derivatives they have
  written sum to \<open>0\<close>. In the arithmetic of the machine the derivatives still cancel: at
  every unit point and for every coordinate direction the exact sum of the stored
  derivatives is \<open>0\<close> whenever they are all finite. Nothing is said of the sum of the
  values stored by the machine. An empty array is not written.
\<close>

theorem hard_coded_shape_functions_sum:
  assumes "shape_arrays_sized 2 (length unit_points1) 1 data1"
    and "shape_arrays_sized 4 (length unit_points2) 2 data2"
    and "shape_arrays_sized 8 (length unit_points3) 3 data3"
    and "shape_arrays_sized 2 (length double_points1) 1 double_data1"
    and "shape_arrays_sized 4 (length double_points2) 2 double_data2"
    and "shape_arrays_sized 8 (length double_points3) 3 double_data3"
  shows "(\<exists>data'. compute_shape_function_values_1 exact_arithmetic 2 unit_points1 data1 = Inr data'
            \<and> sums_at_every_point 2 (length unit_points1) 1 data1 data')
       \<and> (\<exists>data'. compute_shape_function_values_2 exact_arithmetic 4 unit_points2 data2 = Inr data'
            \<and> sums_at_every_point 4 (length unit_points2) 2 data2 data')
       \<and> (\<exists>data'. compute_shape_function_values_3 exact_arithmetic 8 unit_points3 data3 = Inr data'
            \<and> sums_at_every_point 8 (length unit_points3) 3 data3 data')
       \<and> (\<exists>data'. compute_shape_function_values_1 binary64_arithmetic 2 double_points1 double_data1
                     = Inr data'
            \<and> stored_derivatives_cancel 2 (length double_points1) 1 double_data1 data')
       \<and> (\<exists>data'. compute_shape_function_values_2 binary64_arithmetic 4 double_points2 double_data2
                     = Inr data'
            \<and> stored_derivatives_cancel 4 (length double_points2) 2 double_data2 data')
       \<and> (\<exists>data'. compute_shape_function_values_3 binary64_arithmetic 8 double_points3 double_data3
                     = Inr data'
            \<and> stored_derivatives_cancel 8 (length double_points3) 3 double_data3 data')"
proof (intro conjI)
  from shape_loop_result [OF assms(1), of "partition_of_unity 2" "gradients_cancel 2 1"
      "\<lambda>k. assign_shape_values_1 exact_arithmetic k (unit_points1 ! k)"
      "\<lambda>k. assign_shape_derivatives_1 exact_arithmetic k (unit_points1 ! k)"]
    values_writer_1 derivatives_writer_1
  obtain data' where
    r: "compute_shape_function_values_1 exact_arithmetic 2 unit_points1 data1 = Inr data'"
    and i: "shape_loop_inv 2 (length unit_points1) 1 (partition_of_unity 2) (gradients_cancel 2 1)
              (length unit_points1) data'"
    by (auto simp: compute_shape_function_values_1_def)
  have "length (shape_values data') = length (shape_values data1)
       \<and> length (shape_derivatives data') = length (shape_derivatives data1)"
    using r unfolding compute_shape_function_values_1_def
    by (rule shape_loop_lengths) (simp_all only: assign_lengths simp_thms)
  from sums_from_inv [OF i this] r
  show "\<exists>data'. compute_shape_function_values_1 exact_arithmetic 2 unit_points1 data1 = Inr data'
            \<and> sums_at_every_point 2 (length unit_points1) 1 data1 data'"
    by blast
next
  from shape_loop_result [OF assms(2), of "partition_of_unity 4" "gradients_cancel 4 2"
      "\<lambda>k. assign_shape_values_2 exact_arithmetic k (unit_points2 ! k)"
      "\<lambda>k. assign_shape_derivatives_2 exact_arithmetic k (unit_points2 ! k)"]
    values_writer_2 derivatives_writer_2
  obtain data' where
    r: "compute_shape_function_values_2 exact_arithmetic 4 unit_points2 data2 = Inr data'"
    and i: "shape_loop_inv 4 (length unit_points2) 2 (partition_of_unity 4) (gradients_cancel 4 2)
              (length unit_points2) data'"
    by (auto simp: compute_shape_function_values_2_def)
  have "length (shape_values data') = length (shape_values data2)
       \<and> length (shape_derivatives data') = length (shape_derivatives data2)"
    using r unfolding compute_shape_function_values_2_def
    by (rule shape_loop_lengths) (simp_all only: assign_lengths simp_thms)
  from sums_from_inv [OF i this] r
  show "\<exists>data'. compute_shape_function_values_2 exact_arithmetic 4 unit_points2 data2 = Inr data'
            \<and> sums_at_every_point 4 (length unit_points2) 2 data2 data'"
    by blast
next
  from shape_loop_result [OF assms(3), of "partition_of_unity 8" "gradients_cancel 8 3"
      "\<lambda>k. assign_shape_values_3 exact_arithmetic k (unit_points3 ! k)"
      "\<lambda>k. assign_shape_derivatives_3 exact_arithmetic k (unit_points3 ! k)"]
    values_writer_3 derivatives_writer_3
  obtain data' where
    r: "compute_shape_function_values_3 exact_arithmetic 8 unit_points3 data3 = Inr data'"
    and i: "shape_loop_inv 8 (length unit_points3) 3 (partition_of_unity 8) (gradients_cancel 8 3)
              (length unit_points3) data'"
    by (auto simp: compute_shape_function_values_3_def)
  have "length (shape_values data') = length (shape_values data3)
       \<and> length (shape_derivatives data') = length (shape_derivatives data3)"
    using r unfolding compute_shape_function_values_3_def
    by (rule shape_loop_lengths) (simp_all only: assign_lengths simp_thms)
  from sums_from_inv [OF i this] r
  show "\<exists>data'. compute_shape_function_values_3 exact_arithmetic 8 unit_points3 data3 = Inr data'
            \<and> sums_at_every_point 8 (length unit_points3) 3 data3 data'"
    by blast
next
  have V: "\<And>k. values_writer 2 (length double_points1) (\<lambda>d k. True) (stored_gradients_cancel 2 1)
             k (assign_shape_values_1 binary64_arithmetic k (double_points1 ! k))"
    by (rule stored_values_writer) (rule assign_values_frame)
  from shape_loop_result [OF assms(4), of "\<lambda>d k. True" "stored_gradients_cancel 2 1"
      "\<lambda>k. assign_shape_values_1 binary64_arithmetic k (double_points1 ! k)"
      "\<lambda>k. assign_shape_derivatives_1 binary64_arithmetic k (double_points1 ! k)"]
    V stored_derivatives_writer_1
  obtain data' where
    r: "compute_shape_function_values_1 binary64_arithmetic 2 double_points1 double_data1
          = Inr data'"
    and i: "shape_loop_inv 2 (length double_points1) 1 (\<lambda>d k. True) (stored_gradients_cancel 2 1)
              (length double_points1) data'"
    by (auto simp: compute_shape_function_values_1_def)
  have "length (shape_values data') = length (shape_values double_data1)
       \<and> length (shape_derivatives data') = length (shape_derivatives double_data1)"
    using r unfolding compute_shape_function_values_1_def
    by (rule shape_loop_lengths) (simp_all only: assign_lengths simp_thms)
  from stored_from_inv [OF i this] r
  show "\<exists>data'. compute_shape_function_values_1 binary64_arithmetic 2 double_points1 double_data1
                     = Inr data'
            \<and> stored_derivatives_cancel 2 (length double_points1) 1 double_data1 data'"
    by blast
next
  have V: "\<And>k. values_writer 4 (length double_points2) (\<lambda>d k. True) (stored_gradients_cancel 4 2)
             k (assign_shape_values_2 binary64_arithmetic k (double_points2 ! k))"
    by (rule stored_values_writer) (rule assign_values_frame)
  from shape_loop_result [OF assms(5), of "\<lambda>d k. True" "stored_gradients_cancel 4 2"
      "\<lambda>k. assign_shape_values_2 binary64_arithmetic k (double_points2 ! k)"
      "\<lambda>k. assign_shape_derivatives_2 binary64_arithmetic k (double_points2 ! k)"]
    V stored_derivatives_writer_2
  obtain data' where
    r: "compute_shape_function_values_2 binary64_arithmetic 4 double_points2 double_data2
          = Inr data'"
    and i: "shape_loop_inv 4 (length double_points2) 2 (\<lambda>d k. True) (stored_gradients_cancel 4 2)
              (length double_points2) data'"
    by (auto simp: compute_shape_function_values_2_def)
  have "length (shape_values data') = length (shape_values double_data2)
       \<and> length (shape_derivatives data') = length (shape_derivatives double_data2)"
    using r unfolding compute_shape_function_values_2_def
    by (rule shape_loop_lengths) (simp_all only: assign_lengths simp_thms)
  from stored_from_inv [OF i this] r
  show "\<exists>data'. compute_shape_function_values_2 binary64_arithmetic 4 double_points2 double_data2
                     = Inr data'
            \<and> stored_derivatives_cancel 4 (length double_points2) 2 double_data2 data'"
    by blast
next
  have V: "\<And>k. values_writer 8 (length double_points3) (\<lambda>d k. True) (stored_gradients_cancel 8 3)
             k (assign_shape_values_3 binary64_arithmetic k (double_points3 ! k))"
    by (rule stored_values_writer) (rule assign_values_frame)
  from shape_loop_result [OF assms(6), of "\<lambda>d k. True" "stored_gradients_cancel 8 3"
      "\<lambda>k. assign_shape_values_3 binary64_arithmetic k (double_points3 ! k)"
      "\<lambda>k. assign_shape_derivatives_3 binary64_arithmetic k (double_points3 ! k)"]
    V stored_derivatives_writer_3
  obtain data' where
    r: "compute_shape_function_values_3 binary64_arithmetic 8 double_points3 double_data3
          = Inr data'"
    and i: "shape_loop_inv 8 (length double_points3) 3 (\<lambda>d k. True) (stored_gradients_cancel 8 3)
              (length double_points3) data'"
    by (auto simp: compute_shape_function_values_3_def)
  have "length (shape_values data') = length (shape_values double_data3)
       \<and> length (shape_derivatives data') = length (shape_derivatives double_data3)"
    using r unfolding compute_shape_function_values_3_def
    by (rule shape_loop_lengths) (simp_all only: assign_lengths simp_thms)
  from stored_from_inv [OF i this] r
  show "\<exists>data'. compute_shape_function_values_3 binary64_arithmetic 8 double_points3 double_data3
                     = Inr data'
            \<and> stored_derivatives_cancel 8 (length double_points3) 3 double_data3 data'"
    by blast
qed

lemma example_shape_sized:
  "shape_arrays_sized m N dim_t (example_shape_data zero m N dim_t)"
  by (simp add: shape_arrays_sized_def example_shape_data_def tensors_have_def list_all_iff)

lemma example_shape_1:
  "compute_shape_function_values_1 exact_arithmetic 2 [1 / 4] (example_shape_data 0 2 1 1)
     = Inr ((example_shape_data 0 2 1 1)\<lparr>shape_values := [3 / 4, 1 / 4],
              shape_derivatives := [[- 1], [1]]\<rparr>)"
  by (simp add: compute_shape_function_values_1_def compute_shape_function_values_loop_def
        assign_shape_values_1_def assign_shape_derivatives_1_def set_shape_def
        set_derivative_def derivative_def and_then_def Assert_def example_shape_data_def
        exact_arithmetic_def Let_def eval_nat_numeral)

lemma round_3_10: "round_binary64 s (3 / 10) = Finite s (5404319552844595 / 18014398509481984)"
proof -
  have "round_magnitude (3 / 10) = Some (5404319552844595 / 18014398509481984)"
  proof (rule round_magnitudeI)
    show "(3 / 10 :: rat) \<noteq> 0" by simp
    show "max (floor_log2 (3 / 10) - 52) (- 1074) = - 54" by code_simp
    show "round_half_even (3 / 10 / pow2 (- 54)) = 5404319552844595" by code_simp
    show "of_int 5404319552844595 * pow2 (- 54) = (5404319552844595 / 18014398509481984 :: rat)" by code_simp
    show "(5404319552844595 / 18014398509481984 :: rat) < pow2 1024" by (simp add: pow2_def)
  qed
  then show ?thesis by (simp add: round_binary64_def)
qed

lemma round_y: "round_binary64 s (5404319552844595 / 18014398509481984) = Finite s (5404319552844595 / 18014398509481984)"
proof -
  have "round_magnitude (5404319552844595 / 18014398509481984) = Some (5404319552844595 / 18014398509481984)"
  proof (rule round_magnitudeI)
    show "(5404319552844595 / 18014398509481984 :: rat) \<noteq> 0" by simp
    show "max (floor_log2 (5404319552844595 / 18014398509481984) - 52) (- 1074) = - 54" by code_simp
    show "round_half_even (5404319552844595 / 18014398509481984 / pow2 (- 54)) = 5404319552844595" by code_simp
    show "of_int 5404319552844595 * pow2 (- 54) = (5404319552844595 / 18014398509481984 :: rat)" by code_simp
    show "(5404319552844595 / 18014398509481984 :: rat) < pow2 1024" by (simp add: pow2_def)
  qed
  then show ?thesis by (simp add: round_binary64_def)
qed

lemma round_1_4: "round_binary64 s (1 / 4) = Finite s (1 / 4)"
proof -
  have "round_magnitude (1 / 4) = Some (1 / 4)"
  proof (rule round_magnitudeI)
    show "(1 / 4 :: rat) \<noteq> 0" by simp
    show "max (floor_log2 (1 / 4) - 52) (- 1074) = - 54" by code_simp
    show "round_half_even (1 / 4 / pow2 (- 54)) = 4503599627370496" by code_simp
    show "of_int 4503599627370496 * pow2 (- 54) = (1 / 4 :: rat)" by code_simp
    show "(1 / 4 :: rat) < pow2 1024" by (simp add: pow2_def)
  qed
  then show ?thesis by (simp add: round_binary64_def)
qed

lemma round_3_4: "round_binary64 s (3 / 4) = Finite s (3 / 4)"
proof -
  have "round_magnitude (3 / 4) = Some (3 / 4)"
  proof (rule round_magnitudeI)
    show "(3 / 4 :: rat) \<noteq> 0" by simp
    show "max (floor_log2 (3 / 4) - 52) (- 1074) = - 53" by code_simp
    show "round_half_even (3 / 4 / pow2 (- 53)) = 6755399441055744" by code_simp
    show "of_int 6755399441055744 * pow2 (- 53) = (3 / 4 :: rat)" by code_simp
    show "(3 / 4 :: rat) < pow2 1024" by (simp add: pow2_def)
  qed
  then show ?thesis by (simp add: round_binary64_def)
qed

lemma round_1_minus_y: "round_binary64 s (12610078956637389 / 18014398509481984) = Finite s (3152519739159347 / 4503599627370496)"
proof -
  have "round_magnitude (12610078956637389 / 18014398509481984) = Some (3152519739159347 / 4503599627370496)"
  proof (rule round_magnitudeI)
    show "(12610078956637389 / 18014398509481984 :: rat) \<noteq> 0" by simp
    show "max (floor_log2 (12610078956637389 / 18014398509481984) - 52) (- 1074) = - 53" by code_simp
    show "round_half_even (12610078956637389 / 18014398509481984 / pow2 (- 53)) = 6305039478318694" by code_simp
    show "of_int 6305039478318694 * pow2 (- 53) = (3152519739159347 / 4503599627370496 :: rat)" by code_simp
    show "(3152519739159347 / 4503599627370496 :: rat) < pow2 1024" by (simp add: pow2_def)
  qed
  then show ?thesis by (simp add: round_binary64_def)
qed

lemma round_v0: "round_binary64 s (9457559217478041 / 18014398509481984) = Finite s (1182194902184755 / 2251799813685248)"
proof -
  have "round_magnitude (9457559217478041 / 18014398509481984) = Some (1182194902184755 / 2251799813685248)"
  proof (rule round_magnitudeI)
    show "(9457559217478041 / 18014398509481984 :: rat) \<noteq> 0" by simp
    show "max (floor_log2 (9457559217478041 / 18014398509481984) - 52) (- 1074) = - 53" by code_simp
    show "round_half_even (9457559217478041 / 18014398509481984 / pow2 (- 53)) = 4728779608739020" by code_simp
    show "of_int 4728779608739020 * pow2 (- 53) = (1182194902184755 / 2251799813685248 :: rat)" by code_simp
    show "(1182194902184755 / 2251799813685248 :: rat) < pow2 1024" by (simp add: pow2_def)
  qed
  then show ?thesis by (simp add: round_binary64_def)
qed

lemma round_v1: "round_binary64 s (3152519739159347 / 18014398509481984) = Finite s (3152519739159347 / 18014398509481984)"
proof -
  have "round_magnitude (3152519739159347 / 18014398509481984) = Some (3152519739159347 / 18014398509481984)"
  proof (rule round_magnitudeI)
    show "(3152519739159347 / 18014398509481984 :: rat) \<noteq> 0" by simp
    show "max (floor_log2 (3152519739159347 / 18014398509481984) - 52) (- 1074) = - 55" by code_simp
    show "round_half_even (3152519739159347 / 18014398509481984 / pow2 (- 55)) = 6305039478318694" by code_simp
    show "of_int 6305039478318694 * pow2 (- 55) = (3152519739159347 / 18014398509481984 :: rat)" by code_simp
    show "(3152519739159347 / 18014398509481984 :: rat) < pow2 1024" by (simp add: pow2_def)
  qed
  then show ?thesis by (simp add: round_binary64_def)
qed

lemma round_v2: "round_binary64 s (16212958658533785 / 72057594037927936) = Finite s (2026619832316723 / 9007199254740992)"
proof -
  have "round_magnitude (16212958658533785 / 72057594037927936) = Some (2026619832316723 / 9007199254740992)"
  proof (rule round_magnitudeI)
    show "(16212958658533785 / 72057594037927936 :: rat) \<noteq> 0" by simp
    show "max (floor_log2 (16212958658533785 / 72057594037927936) - 52) (- 1074) = - 55" by code_simp
    show "round_half_even (16212958658533785 / 72057594037927936 / pow2 (- 55)) = 8106479329266892" by code_simp
    show "of_int 8106479329266892 * pow2 (- 55) = (2026619832316723 / 9007199254740992 :: rat)" by code_simp
    show "(2026619832316723 / 9007199254740992 :: rat) < pow2 1024" by (simp add: pow2_def)
  qed
  then show ?thesis by (simp add: round_binary64_def)
qed

lemma round_v3: "round_binary64 s (5404319552844595 / 72057594037927936) = Finite s (5404319552844595 / 72057594037927936)"
proof -
  have "round_magnitude (5404319552844595 / 72057594037927936) = Some (5404319552844595 / 72057594037927936)"
  proof (rule round_magnitudeI)
    show "(5404319552844595 / 72057594037927936 :: rat) \<noteq> 0" by simp
    show "max (floor_log2 (5404319552844595 / 72057594037927936) - 52) (- 1074) = - 56" by code_simp
    show "round_half_even (5404319552844595 / 72057594037927936 / pow2 (- 56)) = 5404319552844595" by code_simp
    show "of_int 5404319552844595 * pow2 (- 56) = (5404319552844595 / 72057594037927936 :: rat)" by code_simp
    show "(5404319552844595 / 72057594037927936 :: rat) < pow2 1024" by (simp add: pow2_def)
  qed
  then show ?thesis by (simp add: round_binary64_def)
qed

lemma round_s1: "round_binary64 s (12610078956637387 / 18014398509481984) = Finite s (3152519739159347 / 4503599627370496)"
proof -
  have "round_magnitude (12610078956637387 / 18014398509481984) = Some (3152519739159347 / 4503599627370496)"
  proof (rule round_magnitudeI)
    show "(12610078956637387 / 18014398509481984 :: rat) \<noteq> 0" by simp
    show "max (floor_log2 (12610078956637387 / 18014398509481984) - 52) (- 1074) = - 53" by code_simp
    show "round_half_even (12610078956637387 / 18014398509481984 / pow2 (- 53)) = 6305039478318694" by code_simp
    show "of_int 6305039478318694 * pow2 (- 53) = (3152519739159347 / 4503599627370496 :: rat)" by code_simp
    show "(3152519739159347 / 4503599627370496 :: rat) < pow2 1024" by (simp add: pow2_def)
  qed
  then show ?thesis by (simp add: round_binary64_def)
qed

lemma round_s2: "round_binary64 s (8331659310635417 / 9007199254740992) = Finite s (8331659310635417 / 9007199254740992)"
proof -
  have "round_magnitude (8331659310635417 / 9007199254740992) = Some (8331659310635417 / 9007199254740992)"
  proof (rule round_magnitudeI)
    show "(8331659310635417 / 9007199254740992 :: rat) \<noteq> 0" by simp
    show "max (floor_log2 (8331659310635417 / 9007199254740992) - 52) (- 1074) = - 53" by code_simp
    show "round_half_even (8331659310635417 / 9007199254740992 / pow2 (- 53)) = 8331659310635417" by code_simp
    show "of_int 8331659310635417 * pow2 (- 53) = (8331659310635417 / 9007199254740992 :: rat)" by code_simp
    show "(8331659310635417 / 9007199254740992 :: rat) < pow2 1024" by (simp add: pow2_def)
  qed
  then show ?thesis by (simp add: round_binary64_def)
qed

lemma round_s3: "round_binary64 s (72057594037927931 / 72057594037927936) = Finite s (9007199254740991 / 9007199254740992)"
proof -
  have "round_magnitude (72057594037927931 / 72057594037927936) = Some (9007199254740991 / 9007199254740992)"
  proof (rule round_magnitudeI)
    show "(72057594037927931 / 72057594037927936 :: rat) \<noteq> 0" by simp
    show "max (floor_log2 (72057594037927931 / 72057594037927936) - 52) (- 1074) = - 53" by code_simp
    show "round_half_even (72057594037927931 / 72057594037927936 / pow2 (- 53)) = 9007199254740991" by code_simp
    show "of_int 9007199254740991 * pow2 (- 53) = (9007199254740991 / 9007199254740992 :: rat)" by code_simp
    show "(9007199254740991 / 9007199254740992 :: rat) < pow2 1024" by (simp add: pow2_def)
  qed
  then show ?thesis by (simp add: round_binary64_def)
qed

lemma example_double_values:
  "assign_shape_values_2 binary64_arithmetic 0 example_double_point
     (example_shape_data (Finite False 0) 4 1 2)
   = (example_shape_data (Finite False 0) 4 1 2)
       \<lparr>shape_values := shape_values example_double_result\<rparr>"
  by (simp add: assign_shape_values_2_def example_double_point_def example_double_result_def
        set_shape_def example_shape_data_def binary64_arithmetic_def binary64_sub_def
        binary64_of_int_def with_sign_def Let_def eval_nat_numeral
        round_1 round_3_4 round_1_minus_y round_v0 round_v1 round_v2 round_v3)

lemma example_double_derivatives:
  "assign_shape_derivatives_2 binary64_arithmetic 0 example_double_point
     ((example_shape_data (Finite False 0) 4 1 2)
        \<lparr>shape_values := shape_values example_double_result\<rparr>)
   = example_double_result"
  by (simp add: assign_shape_derivatives_2_def example_double_point_def
        example_double_result_def set_derivative_def derivative_def example_shape_data_def
        binary64_arithmetic_def binary64_sub_def binary64_of_int_def with_sign_def Let_def
        eval_nat_numeral round_1 round_3_4 round_1_minus_y)

lemma example_double_2:
  "compute_shape_function_values_2 binary64_arithmetic 4 [example_double_point]
     (example_shape_data (Finite False 0) 4 1 2)
   = Inr example_double_result"
proof -
  have l: "length (shape_values (example_shape_data (Finite False 0) 4 1 2)) = 4"
    "length (shape_derivatives ((example_shape_data (Finite False 0) 4 1 2)
        \<lparr>shape_values := shape_values example_double_result\<rparr>)) = 4"
    by (simp_all add: example_shape_data_def)
  have ne: "shape_values (example_shape_data (Finite False 0) 4 (Suc 0) 2) \<noteq> []"
    "shape_derivatives (example_shape_data (Finite False 0) 4 (Suc 0) 2) \<noteq> []"
    by (simp_all add: example_shape_data_def)
  show ?thesis
    unfolding compute_shape_function_values_2_def compute_shape_function_values_loop_def
    by (simp add: and_then_def Assert_def l [simplified] ne example_double_values [simplified]
          example_double_derivatives [simplified])
qed

lemma example_double_finite:
  assumes "i < 4" "j < 2"
  shows "binary64_is_finite (derivative example_double_result 0 i ! j)"
proof -
  have "i = 0 \<or> i = 1 \<or> i = 2 \<or> i = 3" using assms(1) by auto
  moreover have "j = 0 \<or> j = 1" using assms(2) by auto
  ultimately show ?thesis
    by (auto simp: derivative_def example_double_result_def example_shape_data_def)
qed

theorem hard_coded_shape_functions_sum_witness:
  "shape_arrays_sized 2 (length [1 / 4 :: real]) 1 (example_shape_data 0 2 1 1)
   \<and> shape_arrays_sized 4 (length [(1 / 4 :: real, 1 / 3 :: real)]) 2 (example_shape_data 0 4 1 2)
   \<and> shape_arrays_sized 8 (length [(1 / 4 :: real, 1 / 3 :: real, 1 / 5 :: real)]) 3
        (example_shape_data 0 8 1 3)
   \<and> shape_arrays_sized 2 (length [Finite False (1 / 4)]) 1
        (example_shape_data (Finite False 0) 2 1 1)
   \<and> shape_arrays_sized 4 (length [example_double_point]) 2
        (example_shape_data (Finite False 0) 4 1 2)
   \<and> shape_arrays_sized 8 (length [(Finite False (1 / 4), example_double_point)]) 3
        (example_shape_data (Finite False 0) 8 1 3)
   \<and> compute_shape_function_values_1 exact_arithmetic 2 [1 / 4] (example_shape_data 0 2 1 1)
       = Inr ((example_shape_data 0 2 1 1)\<lparr>shape_values := [3 / 4, 1 / 4],
                shape_derivatives := [[- 1], [1]]\<rparr>)
   \<and> shape_values_sum 2 ((example_shape_data 0 2 1 1)\<lparr>shape_values := [3 / 4, 1 / 4],
              shape_derivatives := [[- 1], [1]]\<rparr>) 0 = 1
   \<and> shape_derivatives_sum 2 0 ((example_shape_data 0 2 1 1)\<lparr>shape_values := [3 / 4, 1 / 4],
              shape_derivatives := [[- 1], [1]]\<rparr>) 0 = 0
   \<and> (\<exists>data'. compute_shape_function_values_2 exact_arithmetic 4 [(1 / 4, 1 / 3)]
                  (example_shape_data 0 4 1 2) = Inr data'
          \<and> shape_values_sum 4 data' 0 = 1
          \<and> shape_derivatives_sum 4 0 data' 0 = 0 \<and> shape_derivatives_sum 4 1 data' 0 = 0)
   \<and> (\<exists>data'. compute_shape_function_values_3 exact_arithmetic 8 [(1 / 4, 1 / 3, 1 / 5)]
                  (example_shape_data 0 8 1 3) = Inr data'
          \<and> shape_values_sum 8 data' 0 = 1
          \<and> shape_derivatives_sum 8 0 data' 0 = 0 \<and> shape_derivatives_sum 8 1 data' 0 = 0
          \<and> shape_derivatives_sum 8 2 data' 0 = 0)
   \<and> compute_shape_function_values_2 binary64_arithmetic 4 [example_double_point]
        (example_shape_data (Finite False 0) 4 1 2) = Inr example_double_result
   \<and> stored_derivatives_sum 4 0 example_double_result 0 = 0
   \<and> stored_derivatives_sum 4 1 example_double_result 0 = 0"
proof -
  have h1: "shape_arrays_sized 2 (length [1 / 4 :: real]) 1 (example_shape_data 0 2 1 1)"
    using example_shape_sized [of 2 1 1] by simp
  have h2: "shape_arrays_sized 4 (length [(1 / 4 :: real, 1 / 3 :: real)]) 2
              (example_shape_data 0 4 1 2)"
    using example_shape_sized [of 4 1 2] by simp
  have h3: "shape_arrays_sized 8 (length [(1 / 4 :: real, 1 / 3 :: real, 1 / 5 :: real)]) 3
              (example_shape_data 0 8 1 3)"
    using example_shape_sized [of 8 1 3] by simp
  have h4: "shape_arrays_sized 2 (length [Finite False (1 / 4)]) 1
              (example_shape_data (Finite False 0) 2 1 1)"
    using example_shape_sized [of 2 1 1] by simp
  have h5: "shape_arrays_sized 4 (length [example_double_point]) 2
              (example_shape_data (Finite False 0) 4 1 2)"
    using example_shape_sized [of 4 1 2] by simp
  have h6: "shape_arrays_sized 8 (length [(Finite False (1 / 4), example_double_point)]) 3
              (example_shape_data (Finite False 0) 8 1 3)"
    using example_shape_sized [of 8 1 3] by simp
  have ne: "length (shape_values (example_shape_data (0::real) 2 1 1)) \<noteq> 0"
    "length (shape_derivatives (example_shape_data (0::real) 2 1 1)) \<noteq> 0"
    "length (shape_values (example_shape_data (0::real) 4 1 2)) \<noteq> 0"
    "length (shape_derivatives (example_shape_data (0::real) 4 1 2)) \<noteq> 0"
    "length (shape_values (example_shape_data (0::real) 8 1 3)) \<noteq> 0"
    "length (shape_derivatives (example_shape_data (0::real) 8 1 3)) \<noteq> 0"
    "length (shape_derivatives (example_shape_data (Finite False 0) 4 1 2)) \<noteq> 0"
    by (simp_all add: example_shape_data_def)
  note t = hard_coded_shape_functions_sum [OF h1 h2 h3 h4 h5 h6]
  have a: "shape_values_sum 2 ((example_shape_data 0 2 1 1)\<lparr>shape_values := [3 / 4, 1 / 4],
              shape_derivatives := [[- 1], [1]]\<rparr>) 0 = 1
     \<and> shape_derivatives_sum 2 0 ((example_shape_data 0 2 1 1)\<lparr>shape_values := [3 / 4, 1 / 4],
              shape_derivatives := [[- 1], [1]]\<rparr>) 0 = 0"
    using t ne(1,2) example_shape_1 by (auto simp: sums_at_every_point_def)
  have b: "\<exists>data'. compute_shape_function_values_2 exact_arithmetic 4 [(1 / 4, 1 / 3)]
                  (example_shape_data 0 4 1 2) = Inr data'
          \<and> shape_values_sum 4 data' 0 = 1
          \<and> shape_derivatives_sum 4 0 data' 0 = 0 \<and> shape_derivatives_sum 4 1 data' 0 = 0"
    using t ne(3,4) by (auto simp: sums_at_every_point_def)
  have c: "\<exists>data'. compute_shape_function_values_3 exact_arithmetic 8 [(1 / 4, 1 / 3, 1 / 5)]
                  (example_shape_data 0 8 1 3) = Inr data'
          \<and> shape_values_sum 8 data' 0 = 1
          \<and> shape_derivatives_sum 8 0 data' 0 = 0 \<and> shape_derivatives_sum 8 1 data' 0 = 0
          \<and> shape_derivatives_sum 8 2 data' 0 = 0"
    using t ne(5,6) by (auto simp: sums_at_every_point_def)
  have "stored_derivatives_cancel 4 (length [example_double_point]) 2
          (example_shape_data (Finite False 0) 4 1 2) example_double_result"
    using t example_double_2 by auto
  then have d: "stored_derivatives_sum 4 0 example_double_result 0 = 0
        \<and> stored_derivatives_sum 4 1 example_double_result 0 = 0"
    using ne(7) example_double_finite by (simp add: stored_derivatives_cancel_def)
  show ?thesis
    using h1 h2 h3 h4 h5 h6 example_shape_1 a b c example_double_2 d by (simp only: simp_thms)
qed

text \<open>
  In the arithmetic of the machine the values of C9 do not sum to \<open>1\<close>: for the point of
  the unit square with the coordinates \<open>0.25\<close> and \<open>0.3\<close> the exact sum of the four
  stored values is \<open>1 - 9 * 2 ^ - 56\<close>, and their sum in the arithmetic of the machine,
  taken in the order of the shape functions, is \<open>1 - 2 ^ - 53\<close>.
\<close>

theorem hard_coded_shape_functions_sum_counterexample:
  "round_binary64 False (3 / 10) = snd example_double_point
   \<and> round_binary64 False (1 / 4) = fst example_double_point
   \<and> shape_arrays_sized 4 (length [example_double_point]) 2
        (example_shape_data (Finite False 0) 4 1 2)
   \<and> compute_shape_function_values_2 binary64_arithmetic 4 [example_double_point]
        (example_shape_data (Finite False 0) 4 1 2) = Inr example_double_result
   \<and> binary64_value (shape example_double_result 0 0)
       + binary64_value (shape example_double_result 0 1)
       + binary64_value (shape example_double_result 0 2)
       + binary64_value (shape example_double_result 0 3) = 1 - 9 / 2 ^ 56
   \<and> binary64_add (binary64_add (binary64_add (shape example_double_result 0 0)
          (shape example_double_result 0 1)) (shape example_double_result 0 2))
          (shape example_double_result 0 3) = Finite False (1 - 1 / 2 ^ 53)
   \<and> Finite False (1 - 1 / 2 ^ 53) \<noteq> Finite False 1
   \<and> (1 - 9 / 2 ^ 56 :: rat) \<noteq> 1"
proof -
  have i: "round_binary64 False (3 / 10) = snd example_double_point"
    "round_binary64 False (1 / 4) = fst example_double_point"
    by (simp_all add: example_double_point_def round_3_10 round_1_4)
  have h: "shape_arrays_sized 4 (length [example_double_point]) 2
              (example_shape_data (Finite False 0) 4 1 2)"
    using example_shape_sized [of 4 1 2] by simp
  have v: "shape example_double_result 0 0 = Finite False (1182194902184755 / 2251799813685248)"
    "shape example_double_result 0 1 = Finite False (3152519739159347 / 18014398509481984)"
    "shape example_double_result 0 2 = Finite False (2026619832316723 / 9007199254740992)"
    "shape example_double_result 0 3 = Finite False (5404319552844595 / 72057594037927936)"
    by (simp_all add: shape_def example_double_result_def example_shape_data_def)
  have e: "binary64_value (shape example_double_result 0 0)
       + binary64_value (shape example_double_result 0 1)
       + binary64_value (shape example_double_result 0 2)
       + binary64_value (shape example_double_result 0 3) = 1 - 9 / 2 ^ 56"
    unfolding v by (simp add: with_sign_def)
  have s: "binary64_add (binary64_add (binary64_add (shape example_double_result 0 0)
          (shape example_double_result 0 1)) (shape example_double_result 0 2))
          (shape example_double_result 0 3) = Finite False (1 - 1 / 2 ^ 53)"
    unfolding v by (simp add: with_sign_def round_s1 round_s2 round_s3)
  have n: "Finite False (1 - 1 / 2 ^ 53) \<noteq> Finite False 1" "(1 - 9 / 2 ^ 56 :: rat) \<noteq> 1"
    by simp_all
  show ?thesis using i h example_double_2 e s n by (simp only: simp_thms)
qed

section \<open>The Jacobians that \<open>fill_fe_values\<close> stores\<close>

lemma is_matrix_replicate [simp]: "is_matrix n_i n_j (replicate n_i (replicate n_j v))"
  by (simp add: is_matrix_def list_all_iff)

lemma is_matrix_map [simp]:
  "is_matrix n_i n_j (map (\<lambda>i. map (f i) [0..<n_j]) [0..<n_i])"
  by (simp add: is_matrix_def list_all_iff)

lemma is_matrix_row: "is_matrix n_i n_j A \<Longrightarrow> i < n_i \<Longrightarrow> length (A ! i) = n_j"
  by (simp add: is_matrix_def list_all_length)

lemma row_fold_set:
  assumes "i < length A" "k \<le> length (A ! i)"
  shows "fold (\<lambda>j A. set_entry A i j (g j (A ! i ! j))) [0..<k] A
           = A[i := map (\<lambda>j. g j (A ! i ! j)) [0..<k] @ drop k (A ! i)]"
  using assms(2)
proof (induction k)
  case 0
  then show ?case by simp
next
  case (Suc k)
  let ?r = "map (\<lambda>j. g j (A ! i ! j)) [0..<k] @ drop k (A ! i)"
  have k: "k < length (A ! i)" using Suc.prems by simp
  have ih: "fold (\<lambda>j A. set_entry A i j (g j (A ! i ! j))) [0..<k] A = A[i := ?r]"
    using Suc by simp
  have rk: "?r ! k = A ! i ! k" using k by (simp add: nth_append)
  have "?r[k := g k (A ! i ! k)] = map (\<lambda>j. g j (A ! i ! j)) [0..<k] @ (drop k (A ! i))[0 := g k (A ! i ! k)]"
    by (simp add: list_update_append)
  also have "(drop k (A ! i))[0 := g k (A ! i ! k)] = g k (A ! i ! k) # drop (Suc k) (A ! i)"
    using k by (simp add: Cons_nth_drop_Suc [symmetric])
  finally have upd: "?r[k := g k (A ! i ! k)]
      = map (\<lambda>j. g j (A ! i ! j)) [0..<Suc k] @ drop (Suc k) (A ! i)"
    by simp
  have "fold (\<lambda>j A. set_entry A i j (g j (A ! i ! j))) [0..<Suc k] A
          = set_entry (A[i := ?r]) i k (g k (A[i := ?r] ! i ! k))"
    using ih by simp
  also have "\<dots> = A[i := ?r[k := g k (A ! i ! k)]]"
    using assms(1) rk by (simp add: set_entry_def)
  finally show ?case using upd by simp
qed

lemma for_ij_pointwise:
  assumes "is_matrix n_i n_j A"
  shows "for_ij n_i n_j (\<lambda>i j A. set_entry A i j (g i j (A ! i ! j))) A
           = map (\<lambda>i. map (\<lambda>j. g i j (A ! i ! j)) [0..<n_j]) [0..<n_i]"
proof -
  have len: "length A = n_i" using assms by (simp add: is_matrix_def)
  have gen: "k \<le> n_i \<Longrightarrow>
      fold (\<lambda>i A. fold (\<lambda>j A. set_entry A i j (g i j (A ! i ! j))) [0..<n_j] A) [0..<k] A
        = map (\<lambda>i. map (\<lambda>j. g i j (A ! i ! j)) [0..<n_j]) [0..<k] @ drop k A" for k
  proof (induction k)
    case 0
    then show ?case by simp
  next
    case (Suc k)
    let ?P = "map (\<lambda>i. map (\<lambda>j. g i j (A ! i ! j)) [0..<n_j]) [0..<k]"
    let ?A1 = "?P @ drop k A"
    have k: "k < n_i" using Suc.prems by simp
    have ih: "fold (\<lambda>i A. fold (\<lambda>j A. set_entry A i j (g i j (A ! i ! j))) [0..<n_j] A) [0..<k] A = ?A1"
      using Suc by simp
    have a1k: "?A1 ! k = A ! k" using k len by (simp add: nth_append)
    have lrow: "length (A ! k) = n_j" using assms k by (rule is_matrix_row)
    have "fold (\<lambda>j A. set_entry A k j (g k j (A ! k ! j))) [0..<n_j] ?A1
            = ?A1[k := map (\<lambda>j. g k j (?A1 ! k ! j)) [0..<n_j] @ drop n_j (?A1 ! k)]"
      using k len a1k lrow by (intro row_fold_set) simp_all
    also have "\<dots> = ?A1[k := map (\<lambda>j. g k j (A ! k ! j)) [0..<n_j]]"
      using a1k lrow by simp
    also have "\<dots> = ?P @ (drop k A)[0 := map (\<lambda>j. g k j (A ! k ! j)) [0..<n_j]]"
      by (simp add: list_update_append)
    also have "(drop k A)[0 := map (\<lambda>j. g k j (A ! k ! j)) [0..<n_j]]
                 = map (\<lambda>j. g k j (A ! k ! j)) [0..<n_j] # drop (Suc k) A"
      using k len by (simp add: Cons_nth_drop_Suc [symmetric])
    finally show ?case using ih by simp
  qed
  show ?thesis using gen [of n_i] len by (simp add: for_ij_def)
qed

lemma matrix_map_cong:
  "(\<And>i j. i < n_i \<Longrightarrow> j < n_j \<Longrightarrow> f i j = g i j) \<Longrightarrow>
   map (\<lambda>i. map (\<lambda>j. f i j) [0..<n_j]) [0..<n_i] = map (\<lambda>i. map (\<lambda>j. g i j) [0..<n_j]) [0..<n_i]"
  by simp

lemma matrix_map_nth:
  "i < n_i \<Longrightarrow> j < n_j \<Longrightarrow> map (\<lambda>i. map (\<lambda>j. f i j) [0..<n_j]) [0..<n_i] ! i ! j = f i j"
  by simp

lemma contravariant_result_sum:
  assumes "0 < n_shape_functions data"
  shows "contravariant_result dim_t spacedim data qpoint = jacobian_matrix dim_t spacedim data qpoint"
proof -
  let ?d = "derivative data qpoint" and ?s = "\<lambda>k. mapping_support_points data ! k"
  let ?M = "\<lambda>K. map (\<lambda>i. map (\<lambda>j. \<Sum>k<K. ?d k ! j * ?s k ! i) [0..<dim_t]) [0..<spacedim]"
  let ?step = "\<lambda>k result. for_ij spacedim dim_t
             (\<lambda>i j result. set_entry result i j (result ! i ! j + ?d k ! j * ?s k ! i)) result"
  have r1: "for_ij spacedim dim_t (\<lambda>i j result. set_entry result i j (?d 0 ! j * ?s 0 ! i))
              (replicate spacedim (replicate dim_t 0)) = ?M 1"
    using for_ij_pointwise [of spacedim dim_t "replicate spacedim (replicate dim_t 0)"
        "\<lambda>i j old. ?d 0 ! j * ?s 0 ! i"]
    by simp
  have loop: "fold ?step [1..<Suc K] (?M 1) = ?M (Suc K)" for K
  proof (induction K)
    case 0
    then show ?case by simp
  next
    case (Suc K)
    have "fold ?step [1..<Suc (Suc K)] (?M 1) = ?step (Suc K) (?M (Suc K))"
      using Suc by simp
    also have "\<dots> = map (\<lambda>i. map (\<lambda>j. ?M (Suc K) ! i ! j + ?d (Suc K) ! j * ?s (Suc K) ! i)
                      [0..<dim_t]) [0..<spacedim]"
      using for_ij_pointwise [of spacedim dim_t "?M (Suc K)"
          "\<lambda>i j old. old + ?d (Suc K) ! j * ?s (Suc K) ! i"]
      by simp
    also have "\<dots> = ?M (Suc (Suc K))"
      by (rule matrix_map_cong) simp
    finally show ?case .
  qed
  obtain K where K: "n_shape_functions data = Suc K"
    using assms by (cases "n_shape_functions data") simp_all
  show ?thesis
    unfolding contravariant_result_def Let_def r1 K jacobian_matrix_def jacobian_entry_def
    using loop [of K] by simp
qed

lemma contravariant_result_independent [simp]:
  "contravariant_result dim_t spacedim (data\<lparr>contravariant := X\<rparr>) qpoint
     = contravariant_result dim_t spacedim data qpoint"
  by (simp add: contravariant_result_def derivative_def)

lemma copy_result:
  assumes "is_matrix n_i n_j c" "is_matrix n_i n_j result"
  shows "for_ij n_i n_j (\<lambda>i j c. set_entry c i j (result ! i ! j)) c = result"
proof -
  have "for_ij n_i n_j (\<lambda>i j c. set_entry c i j (result ! i ! j)) c
          = map (\<lambda>i. map (\<lambda>j. result ! i ! j) [0..<n_j]) [0..<n_i]"
    using for_ij_pointwise [OF assms(1), of "\<lambda>i j old. result ! i ! j"] by simp
  also have "\<dots> = result"
  proof (rule nth_equalityI)
    show "length (map (\<lambda>i. map (\<lambda>j. result ! i ! j) [0..<n_j]) [0..<n_i]) = length result"
      using assms(2) by (simp add: is_matrix_def)
    fix i assume "i < length (map (\<lambda>i. map (\<lambda>j. result ! i ! j) [0..<n_j]) [0..<n_i])"
    then have i: "i < n_i" by simp
    have "length (result ! i) = n_j" using assms(2) i by (rule is_matrix_row)
    then have "map (\<lambda>j. result ! i ! j) [0..<n_j] = result ! i"
      by (metis map_nth)
    then show "map (\<lambda>i. map (\<lambda>j. result ! i ! j) [0..<n_j]) [0..<n_i] ! i = result ! i"
      using i by simp
  qed
  finally show ?thesis .
qed

lemma contravariant_points_loop:
  assumes nsf: "0 < n_shape_functions data1"
    and mats: "list_all (is_matrix spacedim dim_t) (contravariant data1)"
    and k: "k \<le> length (contravariant data1)"
  shows "fold (\<lambda>point data.
           let result = contravariant_result dim_t spacedim data (point + data_set)
           in data\<lparr>contravariant := (contravariant data)[point :=
                for_ij spacedim dim_t (\<lambda>i j c. set_entry c i j (result ! i ! j))
                  (contravariant data ! point)]\<rparr>)
         [0..<k] data1
       = data1\<lparr>contravariant :=
           map (\<lambda>point. jacobian_matrix dim_t spacedim data1 (point + data_set)) [0..<k]
             @ drop k (contravariant data1)\<rparr>"
  using k
proof (induction k)
  case 0
  then show ?case by simp
next
  case (Suc k)
  let ?J = "\<lambda>point. jacobian_matrix dim_t spacedim data1 (point + data_set)"
  let ?C = "map ?J [0..<k] @ drop k (contravariant data1)"
  have k: "k < length (contravariant data1)" using Suc.prems by simp
  have ck: "?C ! k = contravariant data1 ! k" using k by (simp add: nth_append)
  have m: "is_matrix spacedim dim_t (contravariant data1 ! k)"
    using mats k by (simp add: list_all_length)
  have r: "contravariant_result dim_t spacedim data1 (k + data_set) = ?J k"
    using nsf by (rule contravariant_result_sum)
  have w: "for_ij spacedim dim_t (\<lambda>i j c. set_entry c i j (?J k ! i ! j)) (contravariant data1 ! k)
             = ?J k"
    using m by (rule copy_result) (simp add: jacobian_matrix_def)
  have "?C[k := ?J k] = map ?J [0..<k] @ (drop k (contravariant data1))[0 := ?J k]"
    by (simp add: list_update_append)
  also have "(drop k (contravariant data1))[0 := ?J k] = ?J k # drop (Suc k) (contravariant data1)"
    using k by (simp add: Cons_nth_drop_Suc [symmetric])
  finally have upd: "?C[k := ?J k] = map ?J [0..<Suc k] @ drop (Suc k) (contravariant data1)"
    by simp
  show ?case
    using Suc k ck r w upd by (simp add: Let_def)
qed

lemma fold_covariant_frame:
  "contravariant (fold (\<lambda>point data. data\<lparr>covariant := G point data\<rparr>) xs d) = contravariant d"
  "update_each (fold (\<lambda>point data. data\<lparr>covariant := G point data\<rparr>) xs d) = update_each d"
  "n_shape_functions (fold (\<lambda>point data. data\<lparr>covariant := G point data\<rparr>) xs d)
       = n_shape_functions d"
  "shape_derivatives (fold (\<lambda>point data. data\<lparr>covariant := G point data\<rparr>) xs d)
       = shape_derivatives d"
  "mapping_support_points (fold (\<lambda>point data. data\<lparr>covariant := G point data\<rparr>) xs d)
       = mapping_support_points d"
  by (induction xs arbitrary: d) simp_all

lemma fold_volume_frame:
  "contravariant (fold (\<lambda>point data. data\<lparr>volume_elements := G point data\<rparr>) xs d) = contravariant d"
  "update_each (fold (\<lambda>point data. data\<lparr>volume_elements := G point data\<rparr>) xs d) = update_each d"
  "n_shape_functions (fold (\<lambda>point data. data\<lparr>volume_elements := G point data\<rparr>) xs d)
       = n_shape_functions d"
  "shape_derivatives (fold (\<lambda>point data. data\<lparr>volume_elements := G point data\<rparr>) xs d)
       = shape_derivatives d"
  "mapping_support_points (fold (\<lambda>point data. data\<lparr>volume_elements := G point data\<rparr>) xs d)
       = mapping_support_points d"
  by (induction xs arbitrary: d) simp_all

lemma jacobian_matrix_same:
  "same_mapping_inputs d d' \<Longrightarrow> jacobian_matrix dim_t spacedim d' q = jacobian_matrix dim_t spacedim d q"
  by (simp add: same_mapping_inputs_def jacobian_matrix_def jacobian_entry_def derivative_def)

lemma update_contravariant_result:
  assumes res: "update_contravariant fl dim_t spacedim update_flags cell_similarity data_set data
                  = Inr data'"
  shows "same_mapping_inputs data data'"
    and "update_flags AND update_contravariant_transformation fl \<noteq> 0
         \<Longrightarrow> cell_similarity \<noteq> translation
         \<Longrightarrow> contravariant data'
               = map (\<lambda>point. jacobian_matrix dim_t spacedim data (point + data_set))
                   [0..<length (contravariant data)]"
proof -
  let ?n = "length (contravariant data)"
  let ?data1 = "data\<lparr>contravariant := replicate ?n (replicate spacedim (replicate dim_t 0))\<rparr>"
  let ?J = "\<lambda>point. jacobian_matrix dim_t spacedim data (point + data_set)"
  define c where "c = (update_flags AND update_contravariant_transformation fl \<noteq> 0
            \<and> cell_similarity \<noteq> translation)"
  have loop: "fold (\<lambda>point data.
           let result = contravariant_result dim_t spacedim data (point + data_set)
           in data\<lparr>contravariant := (contravariant data)[point :=
                for_ij spacedim dim_t (\<lambda>i j c. set_entry c i j (result ! i ! j))
                  (contravariant data ! point)]\<rparr>)
         [0..<?n] ?data1 = data\<lparr>contravariant := map ?J [0..<?n]\<rparr>"
    if "0 < n_shape_functions data"
  proof -
    have "fold (\<lambda>point data.
           let result = contravariant_result dim_t spacedim data (point + data_set)
           in data\<lparr>contravariant := (contravariant data)[point :=
                for_ij spacedim dim_t (\<lambda>i j c. set_entry c i j (result ! i ! j))
                  (contravariant data ! point)]\<rparr>)
         [0..<?n] ?data1
       = ?data1\<lparr>contravariant :=
           map (\<lambda>point. jacobian_matrix dim_t spacedim ?data1 (point + data_set)) [0..<?n]
             @ drop ?n (contravariant ?data1)\<rparr>"
      using that by (intro contravariant_points_loop) (simp_all add: list_all_iff)
    also have "\<dots> = data\<lparr>contravariant := map ?J [0..<?n]\<rparr>"
      by (simp add: jacobian_matrix_def jacobian_entry_def derivative_def)
    finally show ?thesis .
  qed
  have "data' = (if c then data\<lparr>contravariant := map ?J [0..<?n]\<rparr> else data)"
  proof (cases c)
    case False
    then show ?thesis using res
      unfolding update_contravariant_def c_def [symmetric] by simp
  next
    case True
    then have pos: "0 < n_shape_functions data"
      using res unfolding update_contravariant_def c_def [symmetric]
      by (auto simp: Let_def Assert_def split: if_splits)
    show ?thesis
      using res True pos loop [OF pos]
      unfolding update_contravariant_def c_def [symmetric]
      by (simp add: Let_def Assert_def)
  qed
  then show "same_mapping_inputs data data'"
    and "update_flags AND update_contravariant_transformation fl \<noteq> 0
         \<Longrightarrow> cell_similarity \<noteq> translation \<Longrightarrow> contravariant data' = map ?J [0..<?n]"
    by (simp_all add: same_mapping_inputs_def c_def)
qed

lemma update_covariant_frame:
  "contravariant (update_covariant fl ops update_flags cell_similarity d) = contravariant d"
  "same_mapping_inputs d (update_covariant fl ops update_flags cell_similarity d)"
  by (simp_all add: update_covariant_def same_mapping_inputs_def fold_covariant_frame)

lemma update_volume_elements_frame:
  "contravariant (update_volume_elements_of fl ops update_flags cell_similarity d) = contravariant d"
  "same_mapping_inputs d (update_volume_elements_of fl ops update_flags cell_similarity d)"
  by (simp_all add: update_volume_elements_of_def same_mapping_inputs_def fold_volume_frame)

lemma same_mapping_inputs_trans:
  "same_mapping_inputs a b \<Longrightarrow> same_mapping_inputs b c \<Longrightarrow> same_mapping_inputs a c"
  by (simp add: same_mapping_inputs_def)

lemma maybe_update_Jacobians_contravariant:
  assumes res: "maybe_update_Jacobians fl ops dim_t spacedim cell_similarity data_set data = Inr data'"
  shows "same_mapping_inputs data data'"
    and "update_each data AND update_contravariant_transformation fl \<noteq> 0
         \<Longrightarrow> cell_similarity \<noteq> translation
         \<Longrightarrow> contravariant data'
               = map (\<lambda>point. jacobian_matrix dim_t spacedim data (point + data_set))
                   [0..<length (contravariant data)]"
proof -
  from res obtain dA where dA:
    "update_contravariant fl dim_t spacedim (update_each data) cell_similarity data_set data = Inr dA"
    and d': "data' = update_volume_elements_of fl ops (update_each data) cell_similarity
                       (update_covariant fl ops (update_each data) cell_similarity dA)"
    by (auto simp: maybe_update_Jacobians_def Let_def and_then_def split: sum.splits)
  have c: "contravariant data' = contravariant dA"
    unfolding d' by (simp add: update_covariant_frame update_volume_elements_frame)
  show "same_mapping_inputs data data'"
    unfolding d'
    by (rule same_mapping_inputs_trans [OF update_contravariant_result(1) [OF dA]
          same_mapping_inputs_trans [OF update_covariant_frame(2) update_volume_elements_frame(2)]])
  show "contravariant data' = map (\<lambda>point. jacobian_matrix dim_t spacedim data (point + data_set))
                   [0..<length (contravariant data)]"
    if "update_each data AND update_contravariant_transformation fl \<noteq> 0"
      "cell_similarity \<noteq> translation"
    using update_contravariant_result(2) [OF dA that] c by simp
qed

lemma JxW_at_point_frame:
  assumes "JxW_at_point fl ops dim_t spacedim cell cell_similarity update_flags weights data point
             out = Inr out'"
  shows "jacobians out' = jacobians out" "inverse_jacobians out' = inverse_jacobians out"
    "length (JxW_values out') = length (JxW_values out)"
  using assms
  by (auto simp: JxW_at_point_def Let_def Assert_def split: if_splits)


lemma fill_JxW_values_frame:
  assumes "fill_JxW_values fl ops dim_t spacedim cell cell_similarity weights data out = Inr out'"
  shows "jacobians out' = jacobians out \<and> inverse_jacobians out' = inverse_jacobians out"
proof (cases "update_each data AND (update_normal_vectors fl OR update_JxW_values fl) \<noteq> 0
              \<and> cell_similarity \<noteq> translation")
  case False
  then show ?thesis using assms
    by (auto simp: fill_JxW_values_def Let_def Assert_def split: if_splits)
next
  case True
  then have loop: "for_each [0..<length weights]
                (JxW_at_point fl ops dim_t spacedim cell cell_similarity (update_each data) weights data)
                out = Inr out'"
    using assms by (auto simp: fill_JxW_values_def Let_def Assert_def split: if_splits)
  show ?thesis
    by (rule for_each_upt_rule [OF loop,
          where I = "\<lambda>k t. jacobians t = jacobians out \<and> inverse_jacobians t = inverse_jacobians out"])
       (auto dest: JxW_at_point_frame)
qed


lemma fold_update_nth:
  "n \<le> length xs \<Longrightarrow> fold (\<lambda>p xs. xs[p := f p]) [0..<n] xs = map f [0..<n] @ drop n xs"
proof (induction n)
  case 0
  then show ?case by simp
next
  case (Suc n)
  then have n: "n < length xs" by simp
  have "(map f [0..<n] @ drop n xs)[n := f n] = map f [0..<n] @ (drop n xs)[0 := f n]"
    by (simp add: list_update_append)
  also have "(drop n xs)[0 := f n] = f n # drop (Suc n) xs"
    using n by (simp add: Cons_nth_drop_Suc [symmetric])
  finally show ?case using Suc by simp
qed

lemma fold_jacobians:
  "jacobians (fold (\<lambda>point out. out\<lparr>jacobians := (jacobians out)[point := f point]\<rparr>) ps out)
     = fold (\<lambda>p xs. xs[p := f p]) ps (jacobians out)"
  "JxW_values (fold (\<lambda>point out. out\<lparr>jacobians := (jacobians out)[point := f point]\<rparr>) ps out)
     = JxW_values out"
  by (induction ps arbitrary: out) simp_all

lemma fold_inverse_jacobians:
  "jacobians (fold (\<lambda>point out. out\<lparr>inverse_jacobians := G point out\<rparr>) ps out) = jacobians out"
  "JxW_values (fold (\<lambda>point out. out\<lparr>inverse_jacobians := G point out\<rparr>) ps out) = JxW_values out"
  by (induction ps arbitrary: out) simp_all

lemma copy_jacobians_result:
  assumes "copy_jacobians fl update_flags cell_similarity n_q_points data out = Inr out'"
  shows "JxW_values out' = JxW_values out"
    and "update_flags AND update_jacobians fl \<noteq> 0 \<Longrightarrow> cell_similarity \<noteq> translation
         \<Longrightarrow> point < n_q_points \<Longrightarrow> jacobians out' ! point = contravariant data ! point"
proof -
  show "JxW_values out' = JxW_values out"
    using assms
    by (auto simp: copy_jacobians_def Assert_def fold_jacobians split: if_splits)
  assume f: "update_flags AND update_jacobians fl \<noteq> 0" and s: "cell_similarity \<noteq> translation"
    and p: "point < n_q_points"
  from assms f s have len: "length (jacobians out) = n_q_points"
    and out': "out' = fold (\<lambda>point output_data.
                          output_data\<lparr>jacobians := (jacobians output_data)[point :=
                             contravariant data ! point]\<rparr>) [0..<n_q_points] out"
    by (auto simp: copy_jacobians_def Assert_def split: if_splits)
  have "jacobians out' = map (\<lambda>p. contravariant data ! p) [0..<n_q_points]
                           @ drop n_q_points (jacobians out)"
    unfolding out' fold_jacobians using len by (intro fold_update_nth) simp
  then show "jacobians out' ! point = contravariant data ! point"
    using p by (simp add: nth_append)
qed

lemma copy_inverse_jacobians_frame:
  assumes "copy_inverse_jacobians fl ops update_flags cell_similarity n_q_points data out = Inr out'"
  shows "JxW_values out' = JxW_values out" "jacobians out' = jacobians out"
  using assms
  by (auto simp: copy_inverse_jacobians_def Assert_def fold_inverse_jacobians split: if_splits)

lemma update_support_points_frame:
  "update_each (update_support_points cell d) = update_each d"
  "contravariant (update_support_points cell d) = contravariant d"
  by (simp_all add: update_support_points_def)

lemma fill_fe_values_parts:
  assumes "fill_fe_values fl ops dim_t spacedim cell cell_similarity weights data out
             = Inr (data', out')"
  shows "\<exists>out2 out3.
      maybe_update_Jacobians fl ops dim_t spacedim cell_similarity 0
        (update_support_points cell data) = Inr data'
    \<and> fill_JxW_values fl ops dim_t spacedim cell cell_similarity weights data'
        (out\<lparr>quadrature_points := maybe_compute_q_points fl spacedim 0
                 (update_support_points cell data) (quadrature_points out)\<rparr>) = Inr out2
    \<and> copy_jacobians fl (update_each data') cell_similarity (length weights) data' out2 = Inr out3
    \<and> copy_inverse_jacobians fl ops (update_each data') cell_similarity (length weights) data' out3
        = Inr out'"
  using assms
  by (auto simp: fill_fe_values_def Let_def and_then_def split: sum.splits)

lemma fill_fe_values_contravariant:
  assumes con: "update_contravariant_transformation fl \<noteq> 0"
    and flags: "update_each data AND update_contravariant_transformation fl \<noteq> 0"
    and sim: "cell_similarity \<noteq> translation"
    and sized: "length (contravariant data) = length weights"
    and res: "fill_fe_values fl ops dim_t spacedim cell cell_similarity weights data out
                = Inr (data', out')"
    and point: "point < length weights"
  shows "contravariant data' ! point = jacobian_matrix dim_t spacedim data' point"
    and "update_each data' = update_each data"
proof -
  let ?d1 = "update_support_points cell data"
  from fill_fe_values_parts [OF res]
  have mu: "maybe_update_Jacobians fl ops dim_t spacedim cell_similarity 0 ?d1 = Inr data'"
    by blast
  have same: "same_mapping_inputs ?d1 data'"
    using maybe_update_Jacobians_contravariant(1) [OF mu] .
  have "contravariant data' = map (\<lambda>point. jacobian_matrix dim_t spacedim ?d1 (point + 0))
                   [0..<length (contravariant ?d1)]"
    using maybe_update_Jacobians_contravariant(2) [OF mu] flags sim
    by (simp add: update_support_points_frame)
  then have "contravariant data' ! point = jacobian_matrix dim_t spacedim ?d1 point"
    using point sized by (simp add: update_support_points_frame)
  then show "contravariant data' ! point = jacobian_matrix dim_t spacedim data' point"
    using jacobian_matrix_same [OF same] by simp
  show "update_each data' = update_each data"
    using same by (simp add: same_mapping_inputs_def update_support_points_frame)
qed

lemma jacobians_of_result:
  assumes con: "update_contravariant_transformation fl \<noteq> 0"
    and each: "update_each data = requires_update_flags fl requested"
    and req: "requested AND update_jacobians fl \<noteq> 0"
    and sim: "cell_similarity \<noteq> translation"
    and sized: "length (contravariant data) = length weights"
    and res: "fill_fe_values fl ops dim_t spacedim cell cell_similarity weights data out
                = Inr (data', out')"
    and point: "point < length weights"
  shows "jacobians out' ! point = contravariant data' ! point"
    and "i < spacedim \<Longrightarrow> j < dim_t \<Longrightarrow>
         jacobians out' ! point ! i ! j
           = (\<Sum>k<n_shape_functions data'.
                derivative data' point k ! j * mapping_support_points data' ! k ! i)"
proof -
  have f: "update_each data AND update_contravariant_transformation fl \<noteq> 0"
    "update_each data AND update_jacobians fl \<noteq> 0"
    using jacobians_need_contravariant [OF con req] each by simp_all
  have c: "contravariant data' ! point = jacobian_matrix dim_t spacedim data' point"
    and e: "update_each data' = update_each data"
    using fill_fe_values_contravariant [OF con f(1) sim sized res point] .
  from fill_fe_values_parts [OF res] obtain out2 out3 where
    cj: "copy_jacobians fl (update_each data') cell_similarity (length weights) data' out2 = Inr out3"
    and ci: "copy_inverse_jacobians fl ops (update_each data') cell_similarity (length weights)
               data' out3 = Inr out'"
    by blast
  have "jacobians out3 ! point = contravariant data' ! point"
    using copy_jacobians_result(2) [OF cj] f(2) e sim point by simp
  then show a: "jacobians out' ! point = contravariant data' ! point"
    using copy_inverse_jacobians_frame(2) [OF ci] by simp
  assume i: "i < spacedim" and j: "j < dim_t"
  have "jacobian_matrix dim_t spacedim data' point ! i ! j = jacobian_entry data' point i j"
    using i j by (simp add: jacobian_matrix_def)
  then show "jacobians out' ! point ! i ! j
           = (\<Sum>k<n_shape_functions data'.
                derivative data' point k ! j * mapping_support_points data' ! k ! i)"
    using a c by (simp add: jacobian_entry_def)
qed

text \<open>
  When the function returns: every part of it returns exactly when its assertions hold.
\<close>

lemma for_each_returns:
  assumes "\<And>x s. x \<in> set xs \<Longrightarrow> (\<exists>s'. body x s = Inr s') = P x"
  shows "(\<exists>s'. for_each xs body s = Inr s') = list_all P xs"
  using assms
proof (induction xs arbitrary: s)
  case Nil
  then show ?case by simp
next
  case (Cons x xs)
  have step: "(\<exists>s'. body x s = Inr s') = P x" using Cons.prems [of x s] by simp
  have rest: "(\<exists>s'. for_each xs body t = Inr s') = list_all P xs" for t
    using Cons.IH [of t] Cons.prems by simp
  show ?case
  proof (cases "body x s")
    case (Inl e)
    then show ?thesis using step by (simp add: and_then_def)
  next
    case (Inr t)
    then show ?thesis using step rest [of t] by (simp add: and_then_def)
  qed
qed

lemma update_contravariant_returns:
  "(\<exists>data'. update_contravariant fl dim_t spacedim update_flags cell_similarity data_set data
              = Inr data')
     = (update_flags AND update_contravariant_transformation fl \<noteq> 0
          \<and> cell_similarity \<noteq> translation \<longrightarrow> 0 < n_shape_functions data)"
  by (simp add: update_contravariant_def Let_def Assert_def)

lemma maybe_update_Jacobians_returns:
  "(\<exists>data'. maybe_update_Jacobians fl ops dim_t spacedim cell_similarity data_set data = Inr data')
     = (update_each data AND update_contravariant_transformation fl \<noteq> 0
          \<and> cell_similarity \<noteq> translation \<longrightarrow> 0 < n_shape_functions data)"
proof -
  have "(\<exists>data'. maybe_update_Jacobians fl ops dim_t spacedim cell_similarity data_set data = Inr data')
      = (\<exists>data'. update_contravariant fl dim_t spacedim (update_each data) cell_similarity
                   data_set data = Inr data')"
    by (cases "update_contravariant fl dim_t spacedim (update_each data) cell_similarity
                 data_set data")
       (simp_all add: maybe_update_Jacobians_def Let_def and_then_def)
  then show ?thesis by (simp only: update_contravariant_returns)
qed

lemma JxW_at_point_returns:
  "(\<exists>out'. JxW_at_point fl ops dim_t spacedim cell cell_similarity update_flags weights data
              point out = Inr out')
     = JxW_assertions_at fl ops dim_t spacedim cell cell_similarity update_flags
         (contravariant data ! point)"
  by (auto simp: JxW_at_point_def JxW_assertions_at_def Let_def Assert_def)

lemma fill_JxW_values_returns:
  "(\<exists>out'. fill_JxW_values fl ops dim_t spacedim cell cell_similarity weights data out = Inr out')
     = (update_each data AND (update_normal_vectors fl OR update_JxW_values fl) \<noteq> 0 \<longrightarrow>
          length (JxW_values out) = length weights
        \<and> (update_each data AND update_normal_vectors fl \<noteq> 0 \<longrightarrow>
              length (normal_vectors out) = length weights)
        \<and> (cell_similarity \<noteq> translation \<longrightarrow>
              list_all (\<lambda>point. JxW_assertions_at fl ops dim_t spacedim cell cell_similarity
                                  (update_each data) (contravariant data ! point))
                [0..<length weights]))"
proof -
  have loop: "(\<exists>out'. for_each [0..<length weights]
                (JxW_at_point fl ops dim_t spacedim cell cell_similarity (update_each data) weights
                   data) out = Inr out')
      = list_all (\<lambda>point. JxW_assertions_at fl ops dim_t spacedim cell cell_similarity
                                  (update_each data) (contravariant data ! point))
                [0..<length weights]"
    by (rule for_each_returns) (rule JxW_at_point_returns)
  show ?thesis
    unfolding fill_JxW_values_def Let_def Assert_def
    using loop by auto
qed

lemma copy_jacobians_returns:
  "(\<exists>out'. copy_jacobians fl update_flags cell_similarity n_q_points data out = Inr out')
     = (update_flags AND update_jacobians fl \<noteq> 0 \<longrightarrow> length (jacobians out) = n_q_points)"
  by (simp add: copy_jacobians_def Assert_def)

lemma copy_inverse_jacobians_returns:
  "(\<exists>out'. copy_inverse_jacobians fl ops update_flags cell_similarity n_q_points data out = Inr out')
     = (update_flags AND update_inverse_jacobians fl \<noteq> 0 \<longrightarrow>
          length (inverse_jacobians out) = n_q_points)"
  by (simp add: copy_inverse_jacobians_def Assert_def)

lemma fold_jacobians_inverse:
  "inverse_jacobians (fold (\<lambda>point out. out\<lparr>jacobians := G point out\<rparr>) ps out)
     = inverse_jacobians out"
  by (induction ps arbitrary: out) simp_all

lemma copy_jacobians_inverse:
  assumes "copy_jacobians fl update_flags cell_similarity n_q_points data out = Inr out'"
  shows "inverse_jacobians out' = inverse_jacobians out"
  using assms
  by (auto simp: copy_jacobians_def Assert_def fold_jacobians_inverse split: if_splits)

lemma fill_fe_values_returns:
  "(\<exists>data' out'. fill_fe_values fl ops dim_t spacedim cell cell_similarity weights data out
                  = Inr (data', out'))
     = (\<exists>data' out2 out3 out'.
          maybe_update_Jacobians fl ops dim_t spacedim cell_similarity 0
            (update_support_points cell data) = Inr data'
        \<and> fill_JxW_values fl ops dim_t spacedim cell cell_similarity weights data'
            (out\<lparr>quadrature_points := maybe_compute_q_points fl spacedim 0
                     (update_support_points cell data) (quadrature_points out)\<rparr>) = Inr out2
        \<and> copy_jacobians fl (update_each data') cell_similarity (length weights) data' out2
            = Inr out3
        \<and> copy_inverse_jacobians fl ops (update_each data') cell_similarity (length weights)
            data' out3 = Inr out')"
  by (auto simp: fill_fe_values_def Let_def and_then_def split: sum.splits)

lemma update_support_points_current:
  "update_support_points cell data
     = (if computed_for_cell cell data then data
        else data\<lparr>mapping_support_points := cell_mapping_support_points cell,
                  cell_of_current_support_points := Some cell\<rparr>)"
  by (auto simp: update_support_points_def computed_for_cell_def split: option.splits)

lemma update_support_points_inputs:
  "n_shape_functions (update_support_points cell data) = n_shape_functions data"
  "shape_derivatives (update_support_points cell data) = shape_derivatives data"
  "mapping_support_points (update_support_points cell data) = support_points_for cell data"
  by (simp_all add: update_support_points_current support_points_for_def)

lemma jacobian_matrix_inputs:
  assumes "n_shape_functions d' = n_shape_functions d"
    "shape_derivatives d' = shape_derivatives d"
    "mapping_support_points d' = mapping_support_points d"
  shows "jacobian_matrix dim_t spacedim d' q = jacobian_matrix dim_t spacedim d q"
  using assms by (simp add: jacobian_matrix_def jacobian_entry_def derivative_def)

lemma jacobian_matrix_current:
  "jacobian_matrix dim_t spacedim (update_support_points cell data) q
     = jacobian_matrix dim_t spacedim
         (data\<lparr>mapping_support_points := support_points_for cell data\<rparr>) q"
  by (rule jacobian_matrix_inputs) (simp_all add: update_support_points_inputs)

lemma fill_fe_values_stages:
  assumes flags: "update_each data AND update_contravariant_transformation fl \<noteq> 0"
    and sim: "cell_similarity \<noteq> translation"
    and sized: "length (contravariant data) = length weights"
    and mu: "maybe_update_Jacobians fl ops dim_t spacedim cell_similarity 0
               (update_support_points cell data) = Inr data'"
  shows "n_shape_functions data' = n_shape_functions data"
    and "shape_derivatives data' = shape_derivatives data"
    and "mapping_support_points data' = support_points_for cell data"
    and "update_each data' = update_each data"
    and "0 < n_shape_functions data"
    and "\<forall>point < length weights. contravariant data' ! point
           = jacobian_matrix dim_t spacedim
               (data\<lparr>mapping_support_points := support_points_for cell data\<rparr>) point"
proof -
  let ?d1 = "update_support_points cell data"
  have same: "same_mapping_inputs ?d1 data'"
    using maybe_update_Jacobians_contravariant(1) [OF mu] .
  show "n_shape_functions data' = n_shape_functions data"
    and "shape_derivatives data' = shape_derivatives data"
    and "mapping_support_points data' = support_points_for cell data"
    and "update_each data' = update_each data"
    using same
    by (simp_all add: same_mapping_inputs_def update_support_points_inputs
          update_support_points_frame)
  have "\<exists>d. maybe_update_Jacobians fl ops dim_t spacedim cell_similarity 0 ?d1 = Inr d"
    using mu by blast
  then show "0 < n_shape_functions data"
    using flags sim
    by (simp add: maybe_update_Jacobians_returns update_support_points_frame
          update_support_points_inputs)
  have "contravariant data' = map (\<lambda>point. jacobian_matrix dim_t spacedim ?d1 (point + 0))
                   [0..<length (contravariant ?d1)]"
    using maybe_update_Jacobians_contravariant(2) [OF mu] flags sim
    by (simp add: update_support_points_frame)
  then show "\<forall>point < length weights. contravariant data' ! point
           = jacobian_matrix dim_t spacedim
               (data\<lparr>mapping_support_points := support_points_for cell data\<rparr>) point"
    using sized by (simp add: update_support_points_frame jacobian_matrix_current)
qed

lemma fill_fe_values_returns_iff:
  assumes flags: "update_each data AND update_contravariant_transformation fl \<noteq> 0"
    and jac: "update_each data AND update_jacobians fl \<noteq> 0"
    and sim: "cell_similarity \<noteq> translation"
    and sized: "length (contravariant data) = length weights"
  shows "(\<exists>data' out'. fill_fe_values fl ops dim_t spacedim cell cell_similarity weights data out
                  = Inr (data', out'))
       = no_assertion_fails fl ops dim_t spacedim cell cell_similarity weights data out"
proof (cases "0 < n_shape_functions data")
  case False
  have "\<not> (\<exists>d. maybe_update_Jacobians fl ops dim_t spacedim cell_similarity 0
                 (update_support_points cell data) = Inr d)"
    using False flags sim
    by (simp add: maybe_update_Jacobians_returns update_support_points_frame
          update_support_points_inputs)
  then have "\<not> (\<exists>data' out'. fill_fe_values fl ops dim_t spacedim cell cell_similarity weights
                   data out = Inr (data', out'))"
    unfolding fill_fe_values_returns by blast
  then show ?thesis using False by (simp add: no_assertion_fails_def Let_def)
next
  case True
  let ?d1 = "update_support_points cell data"
  let ?out1 = "out\<lparr>quadrature_points := maybe_compute_q_points fl spacedim 0 ?d1
                       (quadrature_points out)\<rparr>"
  let ?cur = "data\<lparr>mapping_support_points := support_points_for cell data\<rparr>"
  let ?n = "length weights"
  let ?A = "\<lambda>J. JxW_assertions_at fl ops dim_t spacedim cell cell_similarity (update_each data) J"
  have "\<exists>d. maybe_update_Jacobians fl ops dim_t spacedim cell_similarity 0 ?d1 = Inr d"
    using True
    by (simp add: maybe_update_Jacobians_returns update_support_points_inputs)
  then obtain data' where
    mu: "maybe_update_Jacobians fl ops dim_t spacedim cell_similarity 0 ?d1 = Inr data'"
    by blast
  note st = fill_fe_values_stages [OF flags sim sized mu]
  have points: "list_all (\<lambda>point. ?A (contravariant data' ! point)) [0..<?n]
              = list_all (\<lambda>point. ?A (jacobian_matrix dim_t spacedim ?cur point)) [0..<?n]"
    using st(6) by (simp add: list_all_iff)
  define JX where "JX = (update_each data AND (update_normal_vectors fl OR update_JxW_values fl) \<noteq> 0 \<longrightarrow>
          length (JxW_values out) = ?n
        \<and> (update_each data AND update_normal_vectors fl \<noteq> 0 \<longrightarrow>
              length (normal_vectors out) = ?n)
        \<and> list_all (\<lambda>point. ?A (jacobian_matrix dim_t spacedim ?cur point)) [0..<?n])"
  have jx: "(\<exists>out2. fill_JxW_values fl ops dim_t spacedim cell cell_similarity weights data' ?out1
                      = Inr out2) = JX"
    unfolding fill_JxW_values_returns st(4) points JX_def using sim by simp
  have rhs: "no_assertion_fails fl ops dim_t spacedim cell cell_similarity weights data out
      = (JX \<and> length (jacobians out) = ?n
         \<and> (update_each data AND update_inverse_jacobians fl \<noteq> 0 \<longrightarrow>
              length (inverse_jacobians out) = ?n))"
    using True by (simp add: no_assertion_fails_def Let_def JX_def)
  have lhs: "(\<exists>d out'. fill_fe_values fl ops dim_t spacedim cell cell_similarity weights data out
                  = Inr (d, out'))
      = (\<exists>out2 out3 out'.
          fill_JxW_values fl ops dim_t spacedim cell cell_similarity weights data' ?out1 = Inr out2
        \<and> copy_jacobians fl (update_each data') cell_similarity ?n data' out2 = Inr out3
        \<and> copy_inverse_jacobians fl ops (update_each data') cell_similarity ?n data' out3
            = Inr out')"
    unfolding fill_fe_values_returns using mu by auto
  show ?thesis
  proof (cases JX)
    case False
    then show ?thesis unfolding lhs rhs using jx by blast
  next
    case JXt: True
    then obtain out2 where
      o2: "fill_JxW_values fl ops dim_t spacedim cell cell_similarity weights data' ?out1 = Inr out2"
      using jx by blast
    have f2: "jacobians out2 = jacobians out" "inverse_jacobians out2 = inverse_jacobians out"
      using fill_JxW_values_frame [OF o2] by simp_all
    have cj: "(\<exists>out3. copy_jacobians fl (update_each data') cell_similarity ?n data' out2 = Inr out3)
              = (length (jacobians out) = ?n)"
      unfolding copy_jacobians_returns st(4) f2 using jac by simp
    show ?thesis
    proof (cases "length (jacobians out) = ?n")
      case False
      then have "\<not> (\<exists>out3. copy_jacobians fl (update_each data') cell_similarity ?n data' out2
                      = Inr out3)"
        using cj by simp
      then show ?thesis unfolding lhs rhs using False o2 by auto
    next
      case len: True
      then obtain out3 where
        o3: "copy_jacobians fl (update_each data') cell_similarity ?n data' out2 = Inr out3"
        using cj by blast
      have f3: "inverse_jacobians out3 = inverse_jacobians out"
        using copy_jacobians_inverse [OF o3] f2 by simp
      have ci: "(\<exists>out'. copy_inverse_jacobians fl ops (update_each data') cell_similarity ?n
                         data' out3 = Inr out')
              = (update_each data AND update_inverse_jacobians fl \<noteq> 0 \<longrightarrow>
                   length (inverse_jacobians out) = ?n)"
        unfolding copy_inverse_jacobians_returns st(4) f3 by simp
      show ?thesis unfolding lhs rhs using JXt len o2 o3 ci by auto
    qed
  qed
qed

text \<open>
  C1, as amended. Let the flags of the internal data be the closure under
  \<open>requires_update_flags\<close> of requested flags that contain \<open>update_jacobians\<close>, and let
  the cell not be a \<open>translation\<close> of the previous one. Then \<open>fill_fe_values\<close> returns
  exactly when none of its assertions fails: \<open>n_shape_functions > 0\<close>, the arrays of the
  output have one element for every quadrature point, and, when \<open>JxW\<close> values or normal
  vectors are requested as well, the cell is not distorted at any quadrature point (for
  \<open>dim == spacedim\<close>) or there is a cell normal to compute only in codimension one.
  Whenever it returns, the shape derivatives of the internal data are those of the call,
  its support points are those computed for the cell, or the stored ones if they were
  stored for a cell with the same triangulation, level and index, and at every quadrature
  point the Jacobian in the output is the contravariant matrix of the internal data, whose
  entry \<open>(i, j)\<close> is the sum over all shape functions \<open>k\<close> of the \<open>j\<close>-th derivative of
  shape function \<open>k\<close> at the point times the \<open>i\<close>-th coordinate of support point \<open>k\<close>.
  The flag \<open>update_contravariant_transformation\<close> is not the empty mask, and the array
  \<open>contravariant\<close> has one element for every quadrature point, as
  \<open>InternalData::initialize\<close> leaves it.
\<close>

theorem fill_fe_values_jacobians:
  assumes con: "update_contravariant_transformation fl \<noteq> 0"
    and each: "update_each data = requires_update_flags fl requested"
    and req: "requested AND update_jacobians fl \<noteq> 0"
    and sim: "cell_similarity \<noteq> translation"
    and sized: "length (contravariant data) = length weights"
  shows "((\<exists>data' out'. fill_fe_values fl ops dim_t spacedim cell cell_similarity weights data out
                         = Inr (data', out'))
            = no_assertion_fails fl ops dim_t spacedim cell cell_similarity weights data out)
       \<and> (\<forall>data' out'.
            fill_fe_values fl ops dim_t spacedim cell cell_similarity weights data out
              = Inr (data', out') \<longrightarrow>
              n_shape_functions data' = n_shape_functions data
            \<and> shape_derivatives data' = shape_derivatives data
            \<and> mapping_support_points data'
                = (if computed_for_cell cell data then mapping_support_points data
                   else cell_mapping_support_points cell)
            \<and> (\<forall>point < length weights.
                  jacobians out' ! point = contravariant data' ! point
                \<and> (\<forall>i < spacedim. \<forall>j < dim_t.
                      jacobians out' ! point ! i ! j
                        = (\<Sum>k<n_shape_functions data.
                             derivative data point k ! j
                               * mapping_support_points data' ! k ! i))))"
proof (intro conjI allI impI)
  have f: "update_each data AND update_contravariant_transformation fl \<noteq> 0"
    "update_each data AND update_jacobians fl \<noteq> 0"
    using jacobians_need_contravariant [OF con req] each by simp_all
  show "(\<exists>data' out'. fill_fe_values fl ops dim_t spacedim cell cell_similarity weights data out
                         = Inr (data', out'))
            = no_assertion_fails fl ops dim_t spacedim cell cell_similarity weights data out"
    by (rule fill_fe_values_returns_iff [OF f sim sized])
  fix data' out'
  assume res: "fill_fe_values fl ops dim_t spacedim cell cell_similarity weights data out
                 = Inr (data', out')"
  from fill_fe_values_parts [OF res]
  have mu: "maybe_update_Jacobians fl ops dim_t spacedim cell_similarity 0
              (update_support_points cell data) = Inr data'"
    by blast
  note st = fill_fe_values_stages [OF f(1) sim sized mu]
  show "n_shape_functions data' = n_shape_functions data" by (rule st(1))
  show "shape_derivatives data' = shape_derivatives data" by (rule st(2))
  show "mapping_support_points data'
          = (if computed_for_cell cell data then mapping_support_points data
             else cell_mapping_support_points cell)"
    using st(3) by (simp add: support_points_for_def)
  fix point
  assume point: "point < length weights"
  show "jacobians out' ! point = contravariant data' ! point"
    by (rule jacobians_of_result(1) [OF con each req sim sized res point])
  fix i j
  assume i: "i < spacedim" and j: "j < dim_t"
  have "jacobians out' ! point ! i ! j
          = (\<Sum>k<n_shape_functions data'.
               derivative data' point k ! j * mapping_support_points data' ! k ! i)"
    by (rule jacobians_of_result(2) [OF con each req sim sized res point i j])
  then show "jacobians out' ! point ! i ! j
          = (\<Sum>k<n_shape_functions data.
               derivative data point k ! j * mapping_support_points data' ! k ! i)"
    using st(1,2) by (simp add: derivative_def)
qed

lemma example_requires: "requires_update_flags example_flag_values 0x140 = 0x1150"
  by (simp add: requires_update_flags_def requires_update_flags_loop.simps
        requires_update_flags_body_def example_flag_values_def)



lemma example_q_points:
  "maybe_compute_q_points fl spacedim data_set d [] = []"
  by (simp add: maybe_compute_q_points_def)

lemma upt_Suc0_2: "[Suc 0..<2] = [Suc 0]"
  by (simp add: eval_nat_numeral upt_rec)





lemma example_copy_inverse:
  "copy_inverse_jacobians example_flag_values ops 0x1150 cell_similarity k d out = Inr out"
  by (simp add: copy_inverse_jacobians_def example_flag_values_def)



lemma example_data1_at: "example_data1 = example_data_at example_cell"
  by (simp add: example_data1_def example_data_at_def example_cell_def)

lemma example_refresh:
  "update_support_points example_next_cell example_data1 = example_data_at example_next_cell"
  "update_support_points example_inverted_cell example_data1
     = example_data_at example_inverted_cell"
  "\<not> computed_for_cell example_next_cell example_data1"
  "\<not> computed_for_cell example_inverted_cell example_data1"
  by (simp_all add: update_support_points_def computed_for_cell_def example_data1_def
        example_data_at_def example_internal_data_def example_cell_def example_next_cell_def
        example_inverted_cell_def)

lemma example_each_at:
  "update_each (example_data_at cell) = 0x1150"
  "update_each ((example_data_at cell)\<lparr>contravariant := X\<rparr>) = 0x1150"
  by (simp_all add: example_data_at_def example_internal_data_def example_requires)

lemma example_result_at:
  assumes "cell_mapping_support_points cell = [[a], [b]]"
  shows "contravariant_result (Suc 0) (Suc 0) (example_data_at cell) 0 = [[b - a]]"
  unfolding contravariant_result_def
  using assms
  by (simp add: for_ij_def set_entry_def derivative_def upt_Suc0_2 example_data_at_def
        example_internal_data_def)

lemma example_jacobians_at:
  assumes "cell_mapping_support_points cell = [[a], [b]]"
  shows "maybe_update_Jacobians example_flag_values example_tensor_functions 1 1 none 0
           (example_data_at cell)
         = Inr ((example_data_at cell)\<lparr>contravariant := [[[b - a]]]\<rparr>)"
proof -
  have len: "length (contravariant (example_data_at cell)) = 1"
    "n_shape_functions (example_data_at cell) = 2"
    "update_each (example_data_at cell) = 0x1150"
    by (simp_all add: example_data_at_def example_internal_data_def example_requires)
  have a: "update_contravariant example_flag_values 1 1 0x1150 none 0 (example_data_at cell)
             = Inr ((example_data_at cell)\<lparr>contravariant := [[[b - a]]]\<rparr>)"
    unfolding update_contravariant_def Let_def
    by (simp add: len example_flag_values_def Assert_def example_result_at [OF assms]
          for_ij_def set_entry_def)
  have b: "update_covariant example_flag_values example_tensor_functions 0x1150 none d = d" for d
    by (simp add: update_covariant_def example_flag_values_def)
  have c: "update_volume_elements_of example_flag_values example_tensor_functions 0x1150 none d = d"
    for d
    by (simp add: update_volume_elements_of_def example_flag_values_def)
  show ?thesis
    unfolding maybe_update_Jacobians_def Let_def len a
    by (simp add: and_then_def b c)
qed

lemma example_fill_next:
  "fill_fe_values example_flag_values example_tensor_functions 1 1 example_next_cell none [1]
         example_data1 example_output
   = Inr ((example_data_at example_next_cell)\<lparr>contravariant := [[[4]]]\<rparr>,
          example_output\<lparr>JxW_values := [4], jacobians := [[[4]]]\<rparr>)"
proof -
  let ?d = "(example_data_at example_next_cell)\<lparr>contravariant := [[[4]]]\<rparr>"
  have q: "example_output\<lparr>quadrature_points :=
             maybe_compute_q_points example_flag_values 1 0 (example_data_at example_next_cell)
               (quadrature_points example_output)\<rparr> = example_output"
    by (simp add: example_output_def example_q_points)
  have e: "update_each ?d = 0x1150"
    by (simp add: example_data_at_def example_internal_data_def example_requires)
  have j: "maybe_update_Jacobians example_flag_values example_tensor_functions 1 1 none 0
             (example_data_at example_next_cell) = Inr ?d"
    using example_jacobians_at [of example_next_cell 3 7] by (simp add: example_next_cell_def)
  have x: "fill_JxW_values example_flag_values example_tensor_functions (Suc 0) (Suc 0)
             example_next_cell none [1] ?d example_output
           = Inr (example_output\<lparr>JxW_values := [4]\<rparr>)"
    by (simp add: fill_JxW_values_def JxW_at_point_def Let_def Assert_def and_then_def
          example_each_at example_flag_values_def example_output_def example_next_cell_def
          example_tensor_functions_def)
  have c: "copy_jacobians example_flag_values 0x1150 none (Suc 0) ?d
             (example_output\<lparr>JxW_values := [4]\<rparr>)
           = Inr (example_output\<lparr>JxW_values := [4], jacobians := [[[4]]]\<rparr>)"
    by (simp add: copy_jacobians_def Assert_def example_flag_values_def example_output_def)
  show ?thesis
    unfolding fill_fe_values_def Let_def example_refresh q j
    by (simp add: and_then_def x e c example_copy_inverse)
qed

lemma example_fill_inverted:
  "fill_fe_values example_flag_values example_tensor_functions 1 1 example_inverted_cell none [1]
         example_data1 example_output
   = Inl (ExcDistortedMappedCell 0)"
proof -
  let ?d = "(example_data_at example_inverted_cell)\<lparr>contravariant := [[[- 2]]]\<rparr>"
  have q: "example_output\<lparr>quadrature_points :=
             maybe_compute_q_points example_flag_values 1 0 (example_data_at example_inverted_cell)
               (quadrature_points example_output)\<rparr> = example_output"
    by (simp add: example_output_def example_q_points)
  have e: "update_each ?d = 0x1150"
    by (simp add: example_data_at_def example_internal_data_def example_requires)
  have j: "maybe_update_Jacobians example_flag_values example_tensor_functions 1 1 none 0
             (example_data_at example_inverted_cell) = Inr ?d"
    using example_jacobians_at [of example_inverted_cell 3 1]
    by (simp add: example_inverted_cell_def)
  have x: "fill_JxW_values example_flag_values example_tensor_functions (Suc 0) (Suc 0)
             example_inverted_cell none [1] ?d example_output
           = Inl (ExcDistortedMappedCell 0)"
    by (simp add: fill_JxW_values_def JxW_at_point_def Let_def Assert_def and_then_def
          example_each_at example_flag_values_def example_output_def
          example_inverted_cell_def example_tensor_functions_def)
  show ?thesis
    unfolding fill_fe_values_def Let_def example_refresh q j
    by (simp add: and_then_def x)
qed

lemma example_hypotheses_next:
  "update_contravariant_transformation example_flag_values \<noteq> 0"
  "update_each example_data1 = requires_update_flags example_flag_values 0x140"
  "0x140 AND update_jacobians example_flag_values \<noteq> 0"
  "none \<noteq> translation"
  "length (contravariant example_data1) = length [1 :: real]"
  by (simp_all add: example_flag_values_def example_internal_data_def example_data1_def)

theorem fill_fe_values_jacobians_witness:
  "update_contravariant_transformation example_flag_values \<noteq> 0
   \<and> update_each example_data1 = requires_update_flags example_flag_values 0x140
   \<and> 0x140 AND update_jacobians example_flag_values \<noteq> 0
   \<and> none \<noteq> translation
   \<and> length (contravariant example_data1) = length [1 :: real]
   \<and> mapping_support_points example_data1 = [[1], [3]]
   \<and> \<not> computed_for_cell example_next_cell example_data1
   \<and> no_assertion_fails example_flag_values example_tensor_functions 1 1 example_next_cell none
         [1] example_data1 example_output
   \<and> fill_fe_values example_flag_values example_tensor_functions 1 1 example_next_cell none [1]
         example_data1 example_output
       = Inr ((example_data_at example_next_cell)\<lparr>contravariant := [[[4]]]\<rparr>,
              example_output\<lparr>JxW_values := [4], jacobians := [[[4]]]\<rparr>)
   \<and> mapping_support_points ((example_data_at example_next_cell)\<lparr>contravariant := [[[4]]]\<rparr>)
       = cell_mapping_support_points example_next_cell
   \<and> jacobians (example_output\<lparr>JxW_values := [4], jacobians := [[[4]]]\<rparr>) ! 0 ! 0 ! 0 = 4
   \<and> jacobians (example_output\<lparr>JxW_values := [4], jacobians := [[[4]]]\<rparr>) ! 0 ! 0 ! 0
       = (\<Sum>k<n_shape_functions example_data1.
            derivative example_data1 0 k ! 0
              * cell_mapping_support_points example_next_cell ! k ! 0)"
proof -
  let ?D = "(example_data_at example_next_cell)\<lparr>contravariant := [[[4]]]\<rparr>"
  let ?O = "example_output\<lparr>JxW_values := [4], jacobians := [[[4]]]\<rparr>"
  note t = fill_fe_values_jacobians [OF example_hypotheses_next,
      of example_tensor_functions 1 1 example_next_cell example_output]
  have r: "\<exists>data' out'. fill_fe_values example_flag_values example_tensor_functions 1 1
             example_next_cell none [1] example_data1 example_output = Inr (data', out')"
    using example_fill_next by blast
  have a: "no_assertion_fails example_flag_values example_tensor_functions 1 1 example_next_cell
             none [1] example_data1 example_output"
    using t r by blast
  have b: "mapping_support_points ?D = cell_mapping_support_points example_next_cell"
    using t example_fill_next example_refresh(3) by simp
  have p: "(0::nat) < length [1 :: real]" "(0::nat) < 1" by simp_all
  have c: "jacobians ?O ! 0 ! 0 ! 0
       = (\<Sum>k<n_shape_functions example_data1.
            derivative example_data1 0 k ! 0 * mapping_support_points ?D ! k ! 0)"
    using t example_fill_next p by blast
  have d: "jacobians ?O ! 0 ! 0 ! 0 = 4" by simp
  have m: "mapping_support_points example_data1 = [[1], [3]]"
    by (simp add: example_data1_def)
  show ?thesis
    using example_hypotheses_next example_refresh(3) a example_fill_next b c d m
    by (simp only: simp_thms)
qed

text \<open>
  The claim C1 as it was stated fails for a distorted cell: with \<open>update_jacobians\<close> and
  \<open>update_JxW_values\<close> requested, for the cell with the vertices \<open>3\<close> and \<open>1\<close> the
  assertion on distorted cells fails at the quadrature point \<open>0\<close> before the Jacobians are
  copied, so that the output still holds \<open>0\<close> where the sum of the claim is \<open>- 2\<close>.
\<close>

theorem fill_fe_values_jacobians_counterexample:
  "update_contravariant_transformation example_flag_values \<noteq> 0
   \<and> update_each example_data1 = requires_update_flags example_flag_values 0x140
   \<and> 0x140 AND update_jacobians example_flag_values \<noteq> 0
   \<and> none \<noteq> translation
   \<and> length (contravariant example_data1) = length [1 :: real]
   \<and> length (jacobians example_output) = length [1 :: real]
   \<and> fill_fe_values example_flag_values example_tensor_functions 1 1 example_inverted_cell none
         [1] example_data1 example_output
       = Inl (ExcDistortedMappedCell 0)
   \<and> n_shape_functions example_data1 = 2
   \<and> derivative example_data1 0 0 ! 0 * cell_mapping_support_points example_inverted_cell ! 0 ! 0
       + derivative example_data1 0 1 ! 0 * cell_mapping_support_points example_inverted_cell ! 1 ! 0
       = - 2
   \<and> jacobians example_output ! 0 ! 0 ! 0 = 0"
proof -
  have s: "n_shape_functions example_data1 = 2"
    "derivative example_data1 0 0 ! 0 * cell_mapping_support_points example_inverted_cell ! 0 ! 0
       + derivative example_data1 0 1 ! 0 * cell_mapping_support_points example_inverted_cell ! 1 ! 0
       = - 2"
    by (simp_all add: example_data1_def example_internal_data_def derivative_def
          example_inverted_cell_def eval_nat_numeral)
  have o: "length (jacobians example_output) = length [1 :: real]"
    "jacobians example_output ! 0 ! 0 ! 0 = 0"
    by (simp_all add: example_output_def)
  show ?thesis
    using example_hypotheses_next example_fill_inverted s o by (simp only: simp_thms)
qed



section \<open>The arrays of \<open>SparseDirectUMFPACK::factorize\<close>\<close>

lemma row_start_0 [simp]: "row_start matrix 0 = 0"
  by (simp add: row_start_def)

lemma row_start_Suc:
  "r < matrix_m matrix \<Longrightarrow> row_start matrix (Suc r) = row_start matrix r + get_row_length matrix r"
  by (simp add: row_start_def matrix_m_def get_row_length_def take_Suc_conv_app_nth)

lemma row_start_m: "row_start matrix (matrix_m matrix) = n_nonzero_elements matrix"
  by (simp add: row_start_def matrix_m_def n_nonzero_elements_def)

lemma row_start_mono: "r \<le> r' \<Longrightarrow> row_start matrix r \<le> row_start matrix r'"
proof (induction r' arbitrary: r)
  case 0
  then show ?case by simp
next
  case (Suc r')
  show ?case
  proof (cases "r = Suc r'")
    case True
    then show ?thesis by simp
  next
    case False
    with Suc have le: "row_start matrix r \<le> row_start matrix r'" by simp
    show ?thesis
    proof (cases "r' < matrix_m matrix")
      case True
      then show ?thesis using le by (simp add: row_start_Suc)
    next
      case False
      then have "take (Suc r') (row_entries matrix) = take r' (row_entries matrix)"
        by (simp add: matrix_m_def)
      then show ?thesis using le by (simp add: row_start_def)
    qed
  qed
qed

lemma fill_prefix:
  assumes "k \<le> N" "N \<le> matrix_m matrix" "length Ap0 = N + 1"
  shows "length (fold (\<lambda>row Ap. Ap[row := Ap ! (row - 1) + int (get_row_length matrix (row - 1))])
            [1..<k + 1] (Ap0[0 := 0])) = N + 1
       \<and> (\<forall>r \<le> k. fold (\<lambda>row Ap. Ap[row := Ap ! (row - 1) + int (get_row_length matrix (row - 1))])
            [1..<k + 1] (Ap0[0 := 0]) ! r = int (row_start matrix r))"
  using assms
proof (induction k)
  case 0
  then show ?case by simp
next
  case (Suc k)
  let ?f = "\<lambda>row Ap. Ap[row := Ap ! (row - 1) + int (get_row_length matrix (row - 1))]"
  let ?A = "fold ?f [1..<k + 1] (Ap0[0 := 0])"
  from Suc have ih: "length ?A = N + 1" "\<forall>r \<le> k. ?A ! r = int (row_start matrix r)" by simp_all
  have "[1..<Suc k + 1] = [1..<k + 1] @ [Suc k]" by simp
  then have e: "fold ?f [1..<Suc k + 1] (Ap0[0 := 0]) = ?A[Suc k := ?A ! k + int (get_row_length matrix k)]"
    by (simp del: upt_Suc)
  have k: "k < matrix_m matrix" using Suc.prems by simp
  show ?case unfolding e
    using ih Suc.prems k by (auto simp: nth_list_update row_start_Suc le_Suc_eq)
qed

lemma fill_row_starts_prefix:
  assumes "N = matrix_m matrix"
  shows "length (fill_row_starts matrix N (replicate (N + 1) 0)) = N + 1"
    and "r \<le> N \<Longrightarrow> fill_row_starts matrix N (replicate (N + 1) 0) ! r = int (row_start matrix r)"
  using fill_prefix [of N N matrix "replicate (N + 1) 0"] assms
  by (simp_all add: fill_row_starts_def)

lemma entries_update:
  "length (Ai s) = length (Ax s) \<Longrightarrow>
   entries_of (s\<lparr>Ai := (Ai s)[i := a], Ax := (Ax s)[i := x]\<rparr>) = (entries_of s)[i := (a, x)]"
  by (simp add: entries_of_def update_zip)

lemma copy_row:
  assumes "length (Ai s) = length (Ax s)"
    and "0 \<le> rp ! row" "row < length rp"
    and "nat (rp ! row) + length es \<le> length (Ai s)"
  shows "fold (copy_entry row) es (rp, s) = (rp', s') \<Longrightarrow>
         rp' = rp[row := rp ! row + int (length es)]
       \<and> Ap s' = Ap s \<and> length (Ai s') = length (Ax s') \<and> length (Ai s') = length (Ai s)
       \<and> entries_of s' = take (nat (rp ! row)) (entries_of s) @ map matrix_entry es
            @ drop (nat (rp ! row) + length es) (entries_of s)"
  using assms
proof (induction es arbitrary: rp s)
  case Nil
  then show ?case by simp
next
  case (Cons e es)
  define rp1 where "rp1 = rp[row := rp ! row + 1]"
  define s1 where "s1 = s\<lparr>Ai := (Ai s)[nat (rp ! row) := int (fst e)],
                           Ax := (Ax s)[nat (rp ! row) := snd e]\<rparr>"
  have step: "copy_entry row e (rp, s) = (rp1, s1)"
    by (simp add: copy_entry_def rp1_def s1_def)
  have r1: "rp1 ! row = rp ! row + 1" using Cons.prems(4) by (simp add: rp1_def)
  have len: "length (entries_of s) = length (Ai s)"
    using Cons.prems(2) by (simp add: entries_of_def)
  have e1: "entries_of s1 = (entries_of s)[nat (rp ! row) := matrix_entry e]"
    unfolding s1_def matrix_entry_def using Cons.prems(2) by (rule entries_update)
  from Cons.prems(1) step have f: "fold (copy_entry row) es (rp1, s1) = (rp', s')" by simp
  have ih: "rp' = rp1[row := rp1 ! row + int (length es)]
       \<and> Ap s' = Ap s1 \<and> length (Ai s') = length (Ax s') \<and> length (Ai s') = length (Ai s1)
       \<and> entries_of s' = take (nat (rp1 ! row)) (entries_of s1) @ map matrix_entry es
            @ drop (nat (rp1 ! row) + length es) (entries_of s1)"
  proof (rule Cons.IH)
    show "fold (copy_entry row) es (rp1, s1) = (rp', s')" by (rule f)
    show "length (Ai s1) = length (Ax s1)" using Cons.prems(2) by (simp add: s1_def)
    show "0 \<le> rp1 ! row" using r1 Cons.prems(3) by simp
    show "row < length rp1" using Cons.prems(4) by (simp add: rp1_def)
    show "nat (rp1 ! row) + length es \<le> length (Ai s1)"
      using r1 Cons.prems(3,5) by (simp add: s1_def nat_add_distrib)
  qed
  have n1: "nat (rp1 ! row) = Suc (nat (rp ! row))"
    using r1 Cons.prems(3) by (simp add: nat_add_distrib)
  have lt: "nat (rp ! row) < length (entries_of s)"
    using Cons.prems(5) len by simp
  have t: "take (Suc (nat (rp ! row))) ((entries_of s)[nat (rp ! row) := matrix_entry e])
            = take (nat (rp ! row)) (entries_of s) @ [matrix_entry e]"
    using lt by (simp add: take_Suc_conv_app_nth)
  have d: "drop (Suc (nat (rp ! row)) + length es) ((entries_of s)[nat (rp ! row) := matrix_entry e])
            = drop (nat (rp ! row) + length (e # es)) (entries_of s)"
    by simp
  have rp': "rp' = rp[row := rp ! row + int (length (e # es))]"
    using ih r1 by (simp add: rp1_def add.assoc)
  show ?case
    using ih rp' t d unfolding e1 n1 by (simp add: s1_def)
qed

lemma concat_take_Suc:
  "k < length xss \<Longrightarrow> concat (take (Suc k) xss) = concat (take k xss) @ xss ! k"
  by (simp add: take_Suc_conv_app_nth)

lemma copy_rows_inv:
  assumes "k \<le> matrix_m matrix" "copy_inv matrix s0 0 st0"
  shows "copy_inv matrix s0 k
           (fold (\<lambda>row st. fold (copy_entry row) (row_entries matrix ! row) st) [0..<k] st0)"
  using assms(1)
proof (induction k)
  case 0
  then show ?case using assms(2) by simp
next
  case (Suc k)
  let ?body = "\<lambda>row st. fold (copy_entry row) (row_entries matrix ! row) st"
  obtain rp s where st: "fold ?body [0..<k] st0 = (rp, s)" by (cases "fold ?body [0..<k] st0")
  obtain rp' s' where st': "fold (copy_entry k) (row_entries matrix ! k) (rp, s) = (rp', s')"
    by (cases "fold (copy_entry k) (row_entries matrix ! k) (rp, s)")
  have k: "k < matrix_m matrix" using Suc.prems by simp
  from Suc st have inv: "copy_inv matrix s0 k (rp, s)" by simp
  then have rpl: "length rp = matrix_m matrix + 1"
    and finished: "\<forall>i < k. rp ! i = int (row_start matrix (i + 1))"
    and pending: "\<forall>i. k \<le> i \<and> i \<le> matrix_m matrix \<longrightarrow> rp ! i = int (row_start matrix i)"
    and ap: "Ap s = Ap s0"
    and li: "length (Ai s) = n_nonzero_elements matrix"
    and lx: "length (Ax s) = n_nonzero_elements matrix"
    and pre: "take (row_start matrix k) (entries_of s)
          = map matrix_entry (concat (take k (row_entries matrix)))"
    by (simp_all add: copy_inv_def)
  have rk: "rp ! k = int (row_start matrix k)" using pending k by simp
  have len: "length (row_entries matrix ! k) = get_row_length matrix k"
    by (simp add: get_row_length_def)
  have bound: "row_start matrix (Suc k) \<le> n_nonzero_elements matrix"
    using row_start_mono [of "Suc k" "matrix_m matrix" matrix] k by (simp add: row_start_m)
  have c: "rp' = rp[k := rp ! k + int (length (row_entries matrix ! k))]
       \<and> Ap s' = Ap s \<and> length (Ai s') = length (Ax s') \<and> length (Ai s') = length (Ai s)
       \<and> entries_of s' = take (nat (rp ! k)) (entries_of s) @ map matrix_entry (row_entries matrix ! k)
            @ drop (nat (rp ! k) + length (row_entries matrix ! k)) (entries_of s)"
  proof (rule copy_row)
    show "fold (copy_entry k) (row_entries matrix ! k) (rp, s) = (rp', s')" by (rule st')
    show "length (Ai s) = length (Ax s)" using li lx by simp
    show "0 \<le> rp ! k" using rk by simp
    show "k < length rp" using rpl k by simp
    show "nat (rp ! k) + length (row_entries matrix ! k) \<le> length (Ai s)"
      using rk len bound k li by (simp add: row_start_Suc)
  qed
  have rp'k: "rp' = rp[k := int (row_start matrix (Suc k))]"
    using c rk len k by (simp add: row_start_Suc)
  have el: "length (entries_of s) = n_nonzero_elements matrix"
    using li lx by (simp add: entries_of_def)
  have le: "row_start matrix k \<le> length (entries_of s)"
    using row_start_mono [of k "matrix_m matrix" matrix] k el by (simp add: row_start_m)
  have e': "entries_of s' = map matrix_entry (concat (take k (row_entries matrix)))
            @ map matrix_entry (row_entries matrix ! k)
            @ drop (row_start matrix (Suc k)) (entries_of s)"
    using c rk pre len k by (simp add: row_start_Suc)
  have l1: "length (map matrix_entry (concat (take k (row_entries matrix)))
            @ map matrix_entry (row_entries matrix ! k)) = row_start matrix (Suc k)"
  proof -
    have "length (concat (take k (row_entries matrix))) = row_start matrix k"
      by (simp add: row_start_def length_concat)
    then show ?thesis using k len by (simp add: row_start_Suc)
  qed
  have "take (row_start matrix (Suc k)) (entries_of s')
         = map matrix_entry (concat (take k (row_entries matrix)))
            @ map matrix_entry (row_entries matrix ! k)"
    unfolding e' using l1 by (metis append.assoc append_eq_conv_conj)
  then have pre': "take (row_start matrix (Suc k)) (entries_of s')
         = map matrix_entry (concat (take (Suc k) (row_entries matrix)))"
    using k by (simp add: concat_take_Suc matrix_m_def)
  have kl: "k < length rp" using rpl k by simp
  have a1: "length rp' = matrix_m matrix + 1" using rp'k rpl by simp
  have a2: "\<forall>i < Suc k. rp' ! i = int (row_start matrix (i + 1))"
    using finished kl by (auto simp: rp'k nth_list_update less_Suc_eq)
  have a3: "\<forall>i. Suc k \<le> i \<and> i \<le> matrix_m matrix \<longrightarrow> rp' ! i = int (row_start matrix i)"
    using pending by (auto simp: rp'k nth_list_update)
  have a4: "Ap s' = Ap s0" "length (Ai s') = n_nonzero_elements matrix"
    "length (Ax s') = n_nonzero_elements matrix"
    using c ap li lx by simp_all
  have "copy_inv matrix s0 (Suc k) (rp', s')"
    unfolding copy_inv_def using a1 a2 a3 a4 pre' by simp
  then show ?case using st st' by simp
qed

lemma fill_row_starts_fields:
  "Ap (factorize_fill_row_starts matrix)
     = map (\<lambda>r. int (row_start matrix r)) [0..<matrix_m matrix + 1]"
  "length (Ai (factorize_fill_row_starts matrix)) = n_nonzero_elements matrix"
  "length (Ax (factorize_fill_row_starts matrix)) = n_nonzero_elements matrix"
proof -
  define N where "N = matrix_m matrix"
  define A where "A = fill_row_starts matrix N (replicate (N + 1) 0)"
  have lA: "length A = N + 1" and A: "\<And>r. r \<le> N \<Longrightarrow> A ! r = int (row_start matrix r)"
    unfolding A_def using fill_row_starts_prefix [of N matrix] N_def by simp_all
  have "A = map (\<lambda>r. int (row_start matrix r)) [0..<N + 1]"
    using lA A by (intro nth_equalityI) (auto simp: nth_append simp del: upt_Suc)
  then show "Ap (factorize_fill_row_starts matrix)
     = map (\<lambda>r. int (row_start matrix r)) [0..<matrix_m matrix + 1]"
    by (simp add: factorize_fill_row_starts_def Let_def A_def N_def)
  show "length (Ai (factorize_fill_row_starts matrix)) = n_nonzero_elements matrix"
    "length (Ax (factorize_fill_row_starts matrix)) = n_nonzero_elements matrix"
    by (simp_all add: factorize_fill_row_starts_def Let_def)
qed

lemma row_start_nth:
  "r \<le> matrix_m matrix \<Longrightarrow> Ap (factorize_fill_row_starts matrix) ! r = int (row_start matrix r)"
proof -
  assume "r \<le> matrix_m matrix"
  then have "r < matrix_m matrix + 1 - 0" by simp
  then have "map (\<lambda>r. int (row_start matrix r)) [0..<matrix_m matrix + 1] ! r
               = int (row_start matrix (0 + r))"
    by (rule nth_map_upt)
  then show ?thesis by (simp only: fill_row_starts_fields add_0)
qed

lemma copy_elements_result:
  "\<exists>row_pointers s.
      copy_elements matrix (Ap (factorize_fill_row_starts matrix), factorize_fill_row_starts matrix)
        = (row_pointers, s)
      \<and> Ap s = Ap (factorize_fill_row_starts matrix)
      \<and> (\<forall>row < matrix_m matrix. row_pointers ! row = Ap s ! (row + 1))
      \<and> length (Ai s) = n_nonzero_elements matrix
      \<and> length (Ax s) = n_nonzero_elements matrix
      \<and> entries_of s = map matrix_entry (concat (row_entries matrix))"
proof -
  define N where "N = matrix_m matrix"
  define s0 where "s0 = factorize_fill_row_starts matrix"
  have lA: "length (Ap s0) = N + 1"
    unfolding s0_def fill_row_starts_fields by (simp add: N_def)
  have A: "\<And>r. r \<le> N \<Longrightarrow> Ap s0 ! r = int (row_start matrix r)"
    unfolding s0_def N_def by (rule row_start_nth)
  obtain rp s where cp: "copy_elements matrix (Ap s0, s0) = (rp, s)"
    by (cases "copy_elements matrix (Ap s0, s0)")
  have "copy_inv matrix s0 0 (Ap s0, s0)"
    using lA A by (simp add: copy_inv_def N_def s0_def fill_row_starts_fields)
  from copy_rows_inv [OF le_refl this] cp
  have inv: "copy_inv matrix s0 (matrix_m matrix) (rp, s)"
    by (simp add: copy_elements_def)
  then have ap: "Ap s = Ap s0" and rp: "\<forall>i < N. rp ! i = int (row_start matrix (i + 1))"
    and li: "length (Ai s) = n_nonzero_elements matrix"
    and lx: "length (Ax s) = n_nonzero_elements matrix"
    and pre: "take (row_start matrix N) (entries_of s)
          = map matrix_entry (concat (take N (row_entries matrix)))"
    by (simp_all add: copy_inv_def N_def)
  have "length (entries_of s) = row_start matrix N"
    using li lx by (simp add: entries_of_def N_def row_start_m)
  then have ent: "entries_of s = map matrix_entry (concat (row_entries matrix))"
    using pre by (simp add: N_def matrix_m_def)
  have rows: "\<forall>i < N. rp ! i = Ap s ! (i + 1)"
    using rp A ap by simp
  show ?thesis using cp ap rows li lx ent unfolding s0_def N_def by blast
qed

lemma factorize_copy_result:
  assumes sq: "matrix_m matrix = matrix_n matrix"
    and small: "n_nonzero_elements matrix < 2 ^ 32"
  shows "factorize_copy matrix
           = Inr (copy_elements matrix
                    (Ap (factorize_fill_row_starts matrix), factorize_fill_row_starts matrix))"
proof -
  define s0 where "s0 = factorize_fill_row_starts matrix"
  define N where "N = matrix_m matrix"
  from copy_elements_result [of matrix] obtain rp s where
    cp: "copy_elements matrix (Ap s0, s0) = (rp, s)" and ap: "Ap s = Ap s0"
    and rows: "\<forall>row < N. rp ! row = Ap s ! (row + 1)"
    unfolding s0_def N_def by blast
  have lA: "length (Ap s0) = N + 1"
    unfolding s0_def fill_row_starts_fields by (simp add: N_def)
  then have "Ap s0 \<noteq> []" by auto
  then have "last (Ap s0) = Ap s0 ! N" using lA by (simp add: last_conv_nth)
  also have "\<dots> = int (n_nonzero_elements matrix)"
    unfolding s0_def N_def using row_start_nth [of "matrix_m matrix" matrix]
    by (simp add: row_start_m)
  finally have lastA: "nat (last (Ap s0)) mod 2 ^ 32 = length (Ai s0)"
    using small by (simp add: s0_def fill_row_starts_fields)
  have chk: "list_all (\<lambda>i. rp ! i = Ap s ! (i + 1)) [0..<length (Ap s) - 1]"
    using rows ap lA by (simp add: list_all_iff)
  show ?thesis
    unfolding factorize_copy_def Let_def s0_def [symmetric]
    using sq lastA cp chk by (simp add: Assert_def)
qed

text \<open>
  C6. For a square matrix with \<open>N\<close> rows, after the first loop of \<open>factorize\<close> the
  array \<open>Ap\<close> has \<open>N + 1\<close> elements, \<open>Ap[0] = 0\<close>,
  \<open>Ap[row] = Ap[row-1] + get_row_length (row-1)\<close> for \<open>row = 1, ..., N\<close>, and the last
  element is the number of stored entries, which is the size of \<open>Ai\<close> and \<open>Ax\<close>. The
  copy of the entries leaves \<open>Ap\<close> as it is and ends with \<open>row_pointers[row] = Ap[row+1]\<close>
  for every row, and when the number of stored entries is less than \<open>2 ^ 32\<close> all
  assertions of the function hold.
\<close>

theorem factorize_row_starts:
  assumes sq: "matrix_m matrix = matrix_n matrix"
  shows "length (Ap (factorize_fill_row_starts matrix)) = matrix_m matrix + 1
       \<and> Ap (factorize_fill_row_starts matrix) ! 0 = 0
       \<and> (\<forall>row. 1 \<le> row \<and> row \<le> matrix_m matrix \<longrightarrow>
             Ap (factorize_fill_row_starts matrix) ! row
               = Ap (factorize_fill_row_starts matrix) ! (row - 1)
                   + int (get_row_length matrix (row - 1)))
       \<and> Ap (factorize_fill_row_starts matrix) ! matrix_m matrix
           = int (n_nonzero_elements matrix)
       \<and> length (Ai (factorize_fill_row_starts matrix)) = n_nonzero_elements matrix
       \<and> length (Ax (factorize_fill_row_starts matrix)) = n_nonzero_elements matrix
       \<and> (\<exists>row_pointers s.
             copy_elements matrix
               (Ap (factorize_fill_row_starts matrix), factorize_fill_row_starts matrix)
               = (row_pointers, s)
           \<and> Ap s = Ap (factorize_fill_row_starts matrix)
           \<and> length (Ai s) = n_nonzero_elements matrix
           \<and> length (Ax s) = n_nonzero_elements matrix
           \<and> (\<forall>row < matrix_m matrix. row_pointers ! row = Ap s ! (row + 1))
           \<and> (n_nonzero_elements matrix < 2 ^ 32 \<longrightarrow>
                 factorize_copy matrix = Inr (row_pointers, s)))"
proof -
  let ?s0 = "factorize_fill_row_starts matrix"
  have a: "length (Ap ?s0) = matrix_m matrix + 1"
    by (simp add: fill_row_starts_fields)
  have b: "Ap ?s0 ! 0 = 0" using row_start_nth [of 0 matrix] by simp
  have c: "Ap ?s0 ! row = Ap ?s0 ! (row - 1) + int (get_row_length matrix (row - 1))"
    if bounds: "1 \<le> row \<and> row \<le> matrix_m matrix" for row
  proof -
    from bounds have "row \<noteq> 0" by simp
    then have "\<exists>r. row = Suc r" by (cases row) simp_all
    then obtain r where r: "row = Suc r" by blast
    then have lt: "r < matrix_m matrix" using bounds by simp
    have "Ap ?s0 ! Suc r = int (row_start matrix (Suc r))"
      using lt by (intro row_start_nth) simp
    moreover have "Ap ?s0 ! r = int (row_start matrix r)"
      using lt by (intro row_start_nth) simp
    ultimately show ?thesis using r lt by (simp add: row_start_Suc)
  qed
  have d: "Ap ?s0 ! matrix_m matrix = int (n_nonzero_elements matrix)"
    using row_start_nth [of "matrix_m matrix" matrix] by (simp add: row_start_m)
  from copy_elements_result [of matrix] obtain rp s where
    cp: "copy_elements matrix (Ap ?s0, ?s0) = (rp, s)" and ap: "Ap s = Ap ?s0"
    and rows: "\<forall>row < matrix_m matrix. rp ! row = Ap s ! (row + 1)"
    and li: "length (Ai s) = n_nonzero_elements matrix"
    and lx: "length (Ax s) = n_nonzero_elements matrix"
    by blast
  have e: "n_nonzero_elements matrix < 2 ^ 32 \<longrightarrow> factorize_copy matrix = Inr (rp, s)"
    using factorize_copy_result [OF sq] cp by simp
  show ?thesis
    using a b c d cp ap rows li lx e by (simp add: fill_row_starts_fields(2,3))
qed

lemma upt_0_3: "[0..<3] = [0, 1, 2::nat]"
  by (simp add: eval_nat_numeral upt_rec)

lemma upt_1_4: "[1..<4] = [1, 2, 3::nat]"
  by (simp add: eval_nat_numeral upt_rec)

lemma example_m: "matrix_m example_matrix = 3" "matrix_n example_matrix = 3"
  by (simp_all add: matrix_m_def matrix_n_def example_matrix_def)

lemma upt_Suc0_4: "[Suc 0..<4] = [1, 2, 3::nat]"
  by (simp add: eval_nat_numeral upt_rec)

lemma example_row_starts:
  "factorize_fill_row_starts example_matrix
     = \<lparr>Ap = [0, 3, 6, 9], Ai = replicate 9 0, Ax = replicate 9 0\<rparr>"
  unfolding factorize_fill_row_starts_def Let_def example_m
  by (simp add: fill_row_starts_def upt_Suc0_4 get_row_length_def n_nonzero_elements_def
        example_matrix_def eval_nat_numeral)

lemma example_copy_elements:
  "copy_elements example_matrix
     ([0, 3, 6, 9], \<lparr>Ap = [0, 3, 6, 9], Ai = replicate 9 0, Ax = replicate 9 0\<rparr>)
   = ([3, 6, 9, 9], example_arrays)"
  unfolding copy_elements_def example_m upt_0_3
  by (simp add: copy_entry_def example_matrix_def example_arrays_def eval_nat_numeral)

lemma example_copy:
  "factorize_copy example_matrix = Inr ([3, 6, 9, 9], example_arrays)"
  unfolding factorize_copy_def example_m Let_def example_row_starts
  by (simp add: Assert_def example_copy_elements) (simp add: example_arrays_def upt_0_3)

lemma example_nnz: "n_nonzero_elements example_matrix = 9"
  by (simp add: n_nonzero_elements_def example_matrix_def)

theorem factorize_row_starts_witness:
  "matrix_m example_matrix = matrix_n example_matrix
   \<and> Ap (factorize_fill_row_starts example_matrix) = [0, 3, 6, 9]
   \<and> copy_elements example_matrix
        (Ap (factorize_fill_row_starts example_matrix), factorize_fill_row_starts example_matrix)
       = ([3, 6, 9, 9], example_arrays)
   \<and> n_nonzero_elements example_matrix = 9
   \<and> Ap (factorize_fill_row_starts example_matrix) ! matrix_m example_matrix
       = int (n_nonzero_elements example_matrix)
   \<and> factorize_copy example_matrix = Inr ([3, 6, 9, 9], example_arrays)"
proof -
  have sq: "matrix_m example_matrix = matrix_n example_matrix" by (simp add: example_m)
  have "Ap (factorize_fill_row_starts example_matrix) ! matrix_m example_matrix
       = int (n_nonzero_elements example_matrix)"
    using factorize_row_starts [OF sq] by blast
  then show ?thesis
    using sq example_copy example_nnz
    by (simp add: example_row_starts example_copy_elements)
qed

section \<open>\<open>sort_arrays\<close> as a run of bubble sort\<close>

lemma length_bubble [simp]: "length (bubble xs) = length xs"
  by (induction xs rule: bubble.induct) simp_all

lemma mset_bubble [simp]: "mset (bubble xs) = mset xs"
  by (induction xs rule: bubble.induct) simp_all

lemma set_bubble [simp]: "set (bubble xs) = set xs"
  using mset_bubble [of xs] by (metis set_mset_mset)

lemma bubble_sorted:
  assumes "sorted_wrt (<) (map fst xs)" "x \<notin> fst ` set xs"
  shows "sorted_wrt (<) (map fst (bubble ((x, v) # xs)))"
  using assms
proof (induction xs)
  case Nil
  then show ?case by simp
next
  case (Cons y ys)
  show ?case
  proof (cases "x > fst y")
    case True
    have ih: "sorted_wrt (<) (map fst (bubble ((x, v) # ys)))"
      using Cons by simp
    have "\<forall>z \<in> set (bubble ((x, v) # ys)). fst y < fst z"
      using Cons.prems True by auto
    then show ?thesis using True ih by auto
  next
    case False
    then have "x < fst y" using Cons.prems(2) by force
    then show ?thesis using Cons.prems(1) False by auto
  qed
qed

lemma swap_entries_append:
  assumes "entries_of s = pre @ x # y # rest" "length (Ai s) = length (Ax s)"
    "cursor = int (length pre)"
  shows "entries_of (swap_entries s cursor) = pre @ y # x # rest"
    and "length (Ai (swap_entries s cursor)) = length (Ax (swap_entries s cursor))"
    and "Ap (swap_entries s cursor) = Ap s"
proof -
  let ?c = "length pre"
  have l: "length (entries_of s) = length (Ai s)" using assms(2) by (simp add: entries_of_def)
  moreover have "length (entries_of s) = ?c + Suc (Suc (length rest))"
    using assms(1) by simp
  ultimately have c1: "Suc ?c < length (Ai s)" by simp
  have n0: "entries_of s ! ?c = x" and n1: "entries_of s ! Suc ?c = y"
    using assms(1) by (simp_all add: nth_append)
  have x: "x = (Ai s ! ?c, Ax s ! ?c)" and y: "y = (Ai s ! Suc ?c, Ax s ! Suc ?c)"
    using n0 n1 c1 assms(2) by (simp_all add: entries_of_def)
  have "entries_of (swap_entries s cursor) = (entries_of s)[?c := y, Suc ?c := x]"
    using assms(2,3) x y
    by (simp add: swap_entries_def entries_of_def update_zip nat_add_distrib)
  also have "\<dots> = pre @ y # x # rest"
    using assms(1) by (simp add: list_update_append)
  finally show "entries_of (swap_entries s cursor) = pre @ y # x # rest" .
  show "length (Ai (swap_entries s cursor)) = length (Ax (swap_entries s cursor))"
    using assms(2) by (simp add: swap_entries_def)
  show "Ap (swap_entries s cursor) = Ap s" by (simp add: swap_entries_def)
qed

lemma sort_row_bubble:
  assumes "entries_of s = pre @ x # ys @ post" "length (Ai s) = length (Ax s)"
    "cursor = int (length pre)" "Ap s ! (row + 1) = cursor + 1 + int (length ys)"
  shows "entries_of (sort_row row cursor s) = pre @ bubble (x # ys) @ post
       \<and> length (Ai (sort_row row cursor s)) = length (Ax (sort_row row cursor s))
       \<and> Ap (sort_row row cursor s) = Ap s"
  using assms
proof (induction ys arbitrary: pre s cursor)
  case Nil
  then have "\<not> cursor < Ap s ! (row + 1) - 1" by simp
  then have "sort_row row cursor s = s" by (simp add: sort_row.simps [of row cursor s])
  then show ?case using Nil by simp
next
  case (Cons y zs)
  have l: "length (entries_of s) = length (Ai s)" using Cons.prems(2) by (simp add: entries_of_def)
  have "length (entries_of s) = length pre + Suc (Suc (length zs + length post))"
    using Cons.prems(1) by simp
  then have c1: "Suc (length pre) < length (Ai s)" using l by simp
  have n0: "entries_of s ! length pre = x" and n1: "entries_of s ! Suc (length pre) = y"
    using Cons.prems(1) by (simp_all add: nth_append)
  have fx: "Ai s ! nat cursor = fst x" and fy: "Ai s ! nat (cursor + 1) = fst y"
    using n0 n1 c1 Cons.prems(2,3) by (auto simp: entries_of_def nat_add_distrib)
  have lt: "cursor < Ap s ! (row + 1) - 1" using Cons.prems(4) by simp
  show ?case
  proof (cases "fst x > fst y")
    case True
    let ?s1 = "swap_entries s cursor"
    have e: "entries_of s = pre @ x # y # (zs @ post)" using Cons.prems(1) by simp
    from swap_entries_append [OF e Cons.prems(2,3)]
    have s1: "entries_of ?s1 = (pre @ [y]) @ x # zs @ post"
      "length (Ai ?s1) = length (Ax ?s1)" "Ap ?s1 = Ap s" by simp_all
    have "entries_of (sort_row row (cursor + 1) ?s1) = (pre @ [y]) @ bubble (x # zs) @ post
       \<and> length (Ai (sort_row row (cursor + 1) ?s1)) = length (Ax (sort_row row (cursor + 1) ?s1))
       \<and> Ap (sort_row row (cursor + 1) ?s1) = Ap ?s1"
      using s1 Cons.prems(3,4) by (intro Cons.IH) simp_all
    moreover have "sort_row row cursor s = sort_row row (cursor + 1) ?s1"
      using True lt fx fy by (simp add: sort_row.simps [of row cursor s])
    ultimately show ?thesis using True s1(3) by simp
  next
    case False
    then have "sort_row row cursor s = s"
      using fx fy by (simp add: sort_row.simps [of row cursor s])
    then show ?thesis using False Cons.prems by simp
  qed
qed

lemma wellformed_bounds:
  assumes "row_starts_wellformed N s" "r \<le> r'" "r' \<le> N"
  shows "0 \<le> Ap s ! r" "Ap s ! r \<le> Ap s ! r'" "nat (Ap s ! r') \<le> length (entries_of s)"
    "nat (Ap s ! r) \<le> nat (Ap s ! r')"
proof -
  have srt: "sorted (Ap s)" and len: "length (Ap s) = N + 1"
    and z: "0 \<le> Ap s ! 0" and top: "Ap s ! N \<le> int (length (Ai s))"
    and eq: "length (Ai s) = length (Ax s)"
    using assms(1) by (simp_all add: row_starts_wellformed_def)
  have "Ap s ! 0 \<le> Ap s ! r" using srt len assms(2,3) by (simp add: sorted_iff_nth_mono)
  then show "0 \<le> Ap s ! r" using z by simp
  show m: "Ap s ! r \<le> Ap s ! r'" using srt len assms(2,3) by (simp add: sorted_iff_nth_mono)
  have "Ap s ! r' \<le> Ap s ! N" using srt len assms(3) by (simp add: sorted_iff_nth_mono)
  then show "nat (Ap s ! r') \<le> length (entries_of s)"
    using top eq by (simp add: entries_of_def)
  show "nat (Ap s ! r) \<le> nat (Ap s ! r')" using m by simp
qed

lemma map_fst_row_segment:
  "length (Ai s) = length (Ax s) \<Longrightarrow> map fst (row_segment s row) = Ai_segment s row"
  by (simp add: row_segment_def Ai_segment_def entries_of_def take_map [symmetric] drop_map [symmetric])

lemma sort_row_pass:
  assumes wf: "row_starts_wellformed N s" and row: "row < N"
  shows "entries_of (sort_row row (Ap s ! row) s)
           = take (nat (Ap s ! row)) (entries_of s) @ bubble (row_segment s row)
               @ drop (nat (Ap s ! (row + 1))) (entries_of s)
       \<and> length (Ai (sort_row row (Ap s ! row) s)) = length (Ax (sort_row row (Ap s ! row) s))
       \<and> Ap (sort_row row (Ap s ! row) s) = Ap s"
proof -
  let ?a = "nat (Ap s ! row)" and ?e = "nat (Ap s ! (row + 1))"
  let ?E = "entries_of s"
  have a0: "0 \<le> Ap s ! row" and ae: "Ap s ! row \<le> Ap s ! (row + 1)"
    and eE: "?e \<le> length ?E" and ae': "?a \<le> ?e"
    using wellformed_bounds [OF wf, of row "row + 1"] row by simp_all
  have e0: "0 \<le> Ap s ! (row + 1)" using a0 ae by simp
  have eq: "length (Ai s) = length (Ax s)" using wf by (simp add: row_starts_wellformed_def)
  have split: "?E = take ?a ?E @ row_segment s row @ drop ?e ?E"
  proof -
    have "drop ?a ?E = take (?e - ?a) (drop ?a ?E) @ drop (?e - ?a) (drop ?a ?E)"
      by (simp only: append_take_drop_id)
    also have "drop (?e - ?a) (drop ?a ?E) = drop ?e ?E" using ae' by simp
    finally have "drop ?a ?E = row_segment s row @ drop ?e ?E" by (simp add: row_segment_def)
    then show ?thesis by (metis append_take_drop_id)
  qed
  have lseg: "length (row_segment s row) = ?e - ?a"
    using eE ae' by (simp add: row_segment_def)
  show ?thesis
  proof (cases "row_segment s row")
    case Nil
    then have "?e = ?a" using lseg ae' by simp
    then have "\<not> Ap s ! row < Ap s ! (row + 1) - 1" using a0 e0 by simp
    then have "sort_row row (Ap s ! row) s = s"
      by (simp add: sort_row.simps [of row "Ap s ! row" s])
    then show ?thesis using Nil split eq by simp
  next
    case (Cons x ys)
    have lp: "length (take ?a ?E) = ?a" using eE ae' by simp
    have "entries_of (sort_row row (Ap s ! row) s)
            = take ?a ?E @ bubble (x # ys) @ drop ?e ?E
       \<and> length (Ai (sort_row row (Ap s ! row) s)) = length (Ax (sort_row row (Ap s ! row) s))
       \<and> Ap (sort_row row (Ap s ! row) s) = Ap s"
    proof (rule sort_row_bubble)
      show "?E = take ?a ?E @ x # ys @ drop ?e ?E" using split Cons by simp
      show "length (Ai s) = length (Ax s)" by (rule eq)
      show "Ap s ! row = int (length (take ?a ?E))" using lp a0 by simp
      have d: "?e - ?a = Suc (length ys)" using lseg Cons by simp
      have "int ?e = int ?a + 1 + int (length ys)" using d ae' by linarith
      then show "Ap s ! (row + 1) = Ap s ! row + 1 + int (length ys)"
        using a0 e0 by simp
    qed
    then show ?thesis using Cons by simp
  qed
qed

lemma replaced_nth:
  assumes "length B = e - a" "a \<le> e" "e \<le> length E" "j < a \<or> e \<le> j" "j < length E"
  shows "(take a E @ B @ drop e E) ! j = E ! j"
proof (cases "j < a")
  case True
  then show ?thesis using assms by (simp add: nth_append)
next
  case False
  then have ej: "e \<le> j" using assms(4) by simp
  have la: "length (take a E) = a" using assms(2,3) by simp
  have "(take a E @ B @ drop e E) ! j = (B @ drop e E) ! (j - a)"
    using False la by (simp add: nth_append)
  also have "\<dots> = drop e E ! (j - a - (e - a))"
  proof -
    have "\<not> j - a < length B" using ej assms(1,2) by simp
    then show ?thesis using assms(1) by (simp only: nth_append if_False)
  qed
  also have "j - a - (e - a) = j - e" using ej assms(2) by simp
  also have "drop e E ! (j - e) = E ! j" using ej assms(3) by simp
  finally show ?thesis .
qed

lemma replaced_segment:
  assumes "length B = e - a" "a \<le> e" "e \<le> length E"
    and "a' \<le> e'" "e' \<le> length E" "e' \<le> a \<or> e \<le> a'"
  shows "take (e' - a') (drop a' (take a E @ B @ drop e E)) = take (e' - a') (drop a' E)"
proof (rule nth_equalityI)
  have l: "length (take a E @ B @ drop e E) = length E" using assms(1,2,3) by simp
  show "length (take (e' - a') (drop a' (take a E @ B @ drop e E)))
          = length (take (e' - a') (drop a' E))"
    by (simp only: length_take length_drop l)
  fix i
  assume "i < length (take (e' - a') (drop a' (take a E @ B @ drop e E)))"
  then have i: "i < e' - a'" by (simp only: length_take length_drop l min_less_iff_conj)
  then have j: "a' + i < length E" "a' + i < a \<or> e \<le> a' + i" using assms(4,5,6) by auto
  have "take (e' - a') (drop a' (take a E @ B @ drop e E)) ! i = (take a E @ B @ drop e E) ! (a' + i)"
    using i j(1) l by (simp only: nth_take nth_drop le_add1 less_imp_le)
  also have "\<dots> = E ! (a' + i)" using assms(1,2,3) j(2,1) by (rule replaced_nth)
  also have "\<dots> = take (e' - a') (drop a' E) ! i" using i j(1) by simp
  finally show "take (e' - a') (drop a' (take a E @ B @ drop e E)) ! i
                  = take (e' - a') (drop a' E) ! i" .
qed

lemma replaced_own_segment:
  assumes "length B = e - a" "a \<le> e" "e \<le> length E"
  shows "take (e - a) (drop a (take a E @ B @ drop e E)) = B"
proof -
  have "length (take a E) = a" using assms(2,3) by simp
  then have "drop a (take a E @ B @ drop e E) = B @ drop e E"
    by (metis append_eq_conv_conj)
  then show ?thesis using assms(1) by simp
qed

lemma sort_row_pass_segments:
  assumes wf: "row_starts_wellformed N s" and row: "row < N" and r: "r < N"
  shows "row_starts_wellformed N (sort_row row (Ap s ! row) s)"
    and "Ap (sort_row row (Ap s ! row) s) = Ap s"
    and "row_segment (sort_row row (Ap s ! row) s) r
           = (if r = row then bubble (row_segment s row) else row_segment s r)"
proof -
  let ?s' = "sort_row row (Ap s ! row) s"
  let ?a = "nat (Ap s ! row)" and ?e = "nat (Ap s ! (row + 1))"
  let ?E = "entries_of s"
  from sort_row_pass [OF wf row]
  have E': "entries_of ?s' = take ?a ?E @ bubble (row_segment s row) @ drop ?e ?E"
    and eq': "length (Ai ?s') = length (Ax ?s')" and ap: "Ap ?s' = Ap s"
    by simp_all
  have eE: "?e \<le> length ?E" and ae: "?a \<le> ?e"
    using wellformed_bounds [OF wf, of row "row + 1"] row by simp_all
  have lB: "length (bubble (row_segment s row)) = ?e - ?a"
    using eE ae by (simp add: row_segment_def)
  have eq: "length (Ai s) = length (Ax s)" using wf by (simp add: row_starts_wellformed_def)
  have "length (entries_of ?s') = length ?E" unfolding E' using lB eE ae by simp
  then have lAi: "length (Ai ?s') = length (Ai s)"
    using eq eq' by (simp add: entries_of_def)
  show "row_starts_wellformed N ?s'"
    using wf ap lAi eq' by (simp add: row_starts_wellformed_def)
  show "Ap ?s' = Ap s" by (rule ap)
  show "row_segment ?s' r = (if r = row then bubble (row_segment s row) else row_segment s r)"
  proof (cases "r = row")
    case True
    have "take (?e - ?a) (drop ?a (take ?a ?E @ bubble (row_segment s row) @ drop ?e ?E))
            = bubble (row_segment s row)"
      using lB ae eE by (rule replaced_own_segment)
    then show ?thesis using True by (simp add: row_segment_def [of ?s'] ap E')
  next
    case False
    let ?a' = "nat (Ap s ! r)" and ?e' = "nat (Ap s ! (r + 1))"
    have b': "?a' \<le> ?e'" "?e' \<le> length ?E"
      using wellformed_bounds [OF wf, of r "r + 1"] r by simp_all
    have disj: "?e' \<le> ?a \<or> ?e \<le> ?a'"
    proof (cases "r < row")
      case True
      then show ?thesis using wellformed_bounds(4) [OF wf, of "r + 1" row] row by simp
    next
      case False
      with \<open>r \<noteq> row\<close> have "row + 1 \<le> r" by simp
      then show ?thesis using wellformed_bounds(4) [OF wf, of "row + 1" r] r by simp
    qed
    have "take (?e' - ?a') (drop ?a' (take ?a ?E @ bubble (row_segment s row) @ drop ?e ?E))
            = take (?e' - ?a') (drop ?a' ?E)"
      using lB ae eE b' disj by (rule replaced_segment)
    then show ?thesis using False by (simp add: row_segment_def ap E')
  qed
qed

lemma sort_rows_segments:
  assumes wf: "row_starts_wellformed N s" and k: "k \<le> N"
  shows "row_starts_wellformed N (fold (\<lambda>row s. sort_row row (Ap s ! row) s) [0..<k] s)
       \<and> Ap (fold (\<lambda>row s. sort_row row (Ap s ! row) s) [0..<k] s) = Ap s
       \<and> (\<forall>r < N. row_segment (fold (\<lambda>row s. sort_row row (Ap s ! row) s) [0..<k] s) r
              = (if r < k then bubble (row_segment s r) else row_segment s r))"
  using k
proof (induction k)
  case 0
  then show ?case using wf by simp
next
  case (Suc k)
  let ?t = "fold (\<lambda>row s. sort_row row (Ap s ! row) s) [0..<k] s"
  from Suc have ih: "row_starts_wellformed N ?t" "Ap ?t = Ap s"
    "\<forall>r < N. row_segment ?t r = (if r < k then bubble (row_segment s r) else row_segment s r)"
    by simp_all
  have kN: "k < N" using Suc.prems by simp
  have f: "fold (\<lambda>row s. sort_row row (Ap s ! row) s) [0..<Suc k] s = sort_row k (Ap ?t ! k) ?t"
    by simp
  have a: "row_starts_wellformed N (sort_row k (Ap ?t ! k) ?t)"
    using sort_row_pass_segments(1) [OF ih(1) kN kN] .
  have b: "Ap (sort_row k (Ap ?t ! k) ?t) = Ap s"
    using sort_row_pass_segments(2) [OF ih(1) kN kN] ih(2) by simp
  have c: "\<forall>r < N. row_segment (sort_row k (Ap ?t ! k) ?t) r
              = (if r < Suc k then bubble (row_segment s r) else row_segment s r)"
  proof (intro allI impI)
    fix r assume r: "r < N"
    show "row_segment (sort_row k (Ap ?t ! k) ?t) r
              = (if r < Suc k then bubble (row_segment s r) else row_segment s r)"
      using sort_row_pass_segments(3) [OF ih(1) kN r] ih(3) r kN
      by (auto simp: less_Suc_eq)
  qed
  show ?case unfolding f using a b c by simp
qed

lemma sort_arrays_segments:
  assumes "row_starts_wellformed (matrix_m matrix) s" "r < matrix_m matrix"
  shows "row_segment (sort_arrays matrix s) r = bubble (row_segment s r)"
    and "Ap (sort_arrays matrix s) = Ap s"
    and "row_starts_wellformed (matrix_m matrix) (sort_arrays matrix s)"
  using sort_rows_segments [OF assms(1) le_refl] assms(2)
  by (simp_all add: sort_arrays_def)

text \<open>
  C7. Let the row starts \<open>Ap\<close> be ascending and within the arrays \<open>Ai\<close> and \<open>Ax\<close>, and
  let \<open>row\<close> be a row of the matrix. If the column indices of the row after its first
  entry are strictly ascending and the first column index is not among them, then after
  \<open>sort_arrays\<close> the column indices of the row are strictly ascending. In every case the
  row holds the same pairs of column index and value as before, as a multiset, a row with at
  most one entry is not changed, and \<open>Ap\<close> is not changed.
\<close>

theorem sort_arrays_sorts_row:
  assumes wf: "row_starts_wellformed (matrix_m matrix) s"
    and row: "row < matrix_m matrix"
  shows "(sorted_wrt (<) (tl (Ai_segment s row)) \<and> hd (Ai_segment s row) \<notin> set (tl (Ai_segment s row))
            \<longrightarrow> sorted_wrt (<) (Ai_segment (sort_arrays matrix s) row))
       \<and> mset (row_segment (sort_arrays matrix s) row) = mset (row_segment s row)
       \<and> (length (row_segment s row) \<le> 1
            \<longrightarrow> row_segment (sort_arrays matrix s) row = row_segment s row)
       \<and> Ap (sort_arrays matrix s) = Ap s"
proof -
  let ?s' = "sort_arrays matrix s"
  have seg: "row_segment ?s' row = bubble (row_segment s row)"
    and ap: "Ap ?s' = Ap s"
    and wf': "row_starts_wellformed (matrix_m matrix) ?s'"
    using sort_arrays_segments [OF wf row] by simp_all
  have eq: "length (Ai s) = length (Ax s)" "length (Ai ?s') = length (Ax ?s')"
    using wf wf' by (simp_all add: row_starts_wellformed_def)
  have ai: "Ai_segment s row = map fst (row_segment s row)"
    "Ai_segment ?s' row = map fst (bubble (row_segment s row))"
    using map_fst_row_segment [OF eq(1), of row] map_fst_row_segment [OF eq(2), of row] seg
    by simp_all
  have sorted: "sorted_wrt (<) (Ai_segment ?s' row)"
    if "sorted_wrt (<) (tl (Ai_segment s row))" "hd (Ai_segment s row) \<notin> set (tl (Ai_segment s row))"
  proof (cases "row_segment s row")
    case Nil
    then show ?thesis using ai by simp
  next
    case (Cons xv xs)
    obtain x v where xv: "xv = (x, v)" by (cases xv)
    have "sorted_wrt (<) (map fst xs)" "x \<notin> fst ` set xs"
      using that ai(1) Cons xv by simp_all
    then have "sorted_wrt (<) (map fst (bubble ((x, v) # xs)))" by (rule bubble_sorted)
    then show ?thesis using ai(2) Cons xv by simp
  qed
  have short: "row_segment ?s' row = row_segment s row" if "length (row_segment s row) \<le> 1"
  proof (cases "row_segment s row")
    case Nil
    then show ?thesis using seg by simp
  next
    case (Cons xv xs)
    then have "xs = []" using that by simp
    then show ?thesis using seg Cons by simp
  qed
  show ?thesis using sorted short seg ap by simp
qed

lemma example_sorted:
  "sort_arrays example_matrix example_arrays
     = \<lparr>Ap = [0, 3, 6, 9], Ai = [0, 1, 2, 0, 1, 2, 0, 1, 2], Ax = [1, 2, 3, 5, 4, 6, 8, 9, 7]\<rparr>"
  unfolding sort_arrays_def example_m upt_0_3
  by (simp add: example_arrays_def sort_row.simps swap_entries_def)

theorem sort_arrays_sorts_row_witness:
  "row_starts_wellformed (matrix_m example_matrix) example_arrays
   \<and> 2 < matrix_m example_matrix
   \<and> Ai_segment example_arrays 2 = [2, 0, 1]
   \<and> Ai_segment (sort_arrays example_matrix example_arrays) 2 = [0, 1, 2]
   \<and> sorted_wrt (<) (Ai_segment (sort_arrays example_matrix example_arrays) 2)
   \<and> mset (row_segment (sort_arrays example_matrix example_arrays) 2)
       = mset (row_segment example_arrays 2)"
proof -
  have wf: "row_starts_wellformed (matrix_m example_matrix) example_arrays"
    by (simp add: row_starts_wellformed_def example_matrix_def example_arrays_def matrix_m_def)
  have row: "2 < matrix_m example_matrix"
    by (simp add: example_matrix_def matrix_m_def)
  have seg: "Ai_segment example_arrays 2 = [2, 0, 1]"
    by (simp add: Ai_segment_def example_arrays_def)
  have seg': "Ai_segment (sort_arrays example_matrix example_arrays) 2 = [0, 1, 2]"
    by (simp add: example_sorted Ai_segment_def)
  from sort_arrays_sorts_row [OF wf row] seg seg' wf row
  show ?thesis by simp
qed

section \<open>The entries that \<open>initialize_matrix\<close> copies\<close>

lemma fold_over_concat: "fold f (concat xss) st = fold (fold f) xss st"
  by (induction xss arbitrary: st) simp_all

lemma nested_fold_entries:
  "fold (\<lambda>row st. fold (f row) (row_entries matrix ! row) st) [0..<matrix_m matrix] st
     = fold (\<lambda>e. f (fst e) (snd e)) (entries_with_rows matrix) st"
proof -
  have "fold (\<lambda>e. f (fst e) (snd e)) (entries_with_rows matrix) st
          = fold (\<lambda>row. fold (\<lambda>e. f (fst e) (snd e)) (map (Pair row) (row_entries matrix ! row)))
              [0..<matrix_m matrix] st"
    by (simp add: entries_with_rows_def fold_over_concat fold_map comp_def)
  also have "\<dots> = fold (\<lambda>row. fold (f row) (row_entries matrix ! row)) [0..<matrix_m matrix] st"
    by (simp add: fold_map comp_def)
  finally show ?thesis by simp
qed

lemma map_snd_entries_with_rows:
  "map snd (entries_with_rows matrix) = concat (row_entries matrix)"
proof -
  have "map snd (entries_with_rows matrix)
          = concat (map (\<lambda>row. row_entries matrix ! row) [0..<length (row_entries matrix)])"
    by (simp add: entries_with_rows_def map_concat comp_def matrix_m_def)
  then show ?thesis by (simp add: map_nth)
qed

lemma length_kept_entries:
  "length (kept_entries matrix) = n_actually_nonzero_elements matrix"
proof -
  have "filter (\<lambda>p. \<bar>snd p\<bar> > 0) (map snd (entries_with_rows matrix))
          = map snd (kept_entries matrix)"
    by (simp add: kept_entries_def filter_map comp_def)
  then show ?thesis
    by (metis length_map map_snd_entries_with_rows n_actually_nonzero_elements_def)
qed

lemma mumps_copy_fold:
  assumes "length a = L" "length irn = L" "length jcn = L"
    and "i0 + length (filter (\<lambda>e. \<bar>snd (snd e)\<bar> > 0) es) \<le> L"
  shows "fold (\<lambda>e. mumps_copy_entry (fst e) (snd e)) es (i0, a, irn, jcn)
     = (i0 + length (filter (\<lambda>e. \<bar>snd (snd e)\<bar> > 0) es),
        take i0 a @ map (\<lambda>e. snd (snd e)) (filter (\<lambda>e. \<bar>snd (snd e)\<bar> > 0) es)
          @ drop (i0 + length (filter (\<lambda>e. \<bar>snd (snd e)\<bar> > 0) es)) a,
        take i0 irn @ map (\<lambda>e. int (fst e) + 1) (filter (\<lambda>e. \<bar>snd (snd e)\<bar> > 0) es)
          @ drop (i0 + length (filter (\<lambda>e. \<bar>snd (snd e)\<bar> > 0) es)) irn,
        take i0 jcn @ map (\<lambda>e. int (fst (snd e)) + 1) (filter (\<lambda>e. \<bar>snd (snd e)\<bar> > 0) es)
          @ drop (i0 + length (filter (\<lambda>e. \<bar>snd (snd e)\<bar> > 0) es)) jcn)"
  using assms
proof (induction es arbitrary: i0 a irn jcn)
  case Nil
  then show ?case by simp
next
  case (Cons e es)
  show ?case
  proof (cases "\<bar>snd (snd e)\<bar> > 0")
    case False
    then show ?thesis using Cons by (simp add: mumps_copy_entry_def)
  next
    case True
    have i0: "i0 < L" using Cons.prems(4) True by simp
    have step: "mumps_copy_entry (fst e) (snd e) (i0, a, irn, jcn)
        = (i0 + 1, a[i0 := snd (snd e)], irn[i0 := int (fst e) + 1],
           jcn[i0 := int (fst (snd e)) + 1])"
      using True by (simp add: mumps_copy_entry_def)
    have t: "\<And>xs v. length xs = L \<Longrightarrow> take (i0 + 1) (xs[i0 := v]) = take i0 xs @ [v]"
      using i0 by (simp add: take_Suc_conv_app_nth)
    have ih: "fold (\<lambda>e. mumps_copy_entry (fst e) (snd e)) es
            (i0 + 1, a[i0 := snd (snd e)], irn[i0 := int (fst e) + 1],
             jcn[i0 := int (fst (snd e)) + 1])
     = (i0 + 1 + length (filter (\<lambda>e. \<bar>snd (snd e)\<bar> > 0) es),
        take (i0 + 1) (a[i0 := snd (snd e)])
          @ map (\<lambda>e. snd (snd e)) (filter (\<lambda>e. \<bar>snd (snd e)\<bar> > 0) es)
          @ drop (i0 + 1 + length (filter (\<lambda>e. \<bar>snd (snd e)\<bar> > 0) es)) (a[i0 := snd (snd e)]),
        take (i0 + 1) (irn[i0 := int (fst e) + 1])
          @ map (\<lambda>e. int (fst e) + 1) (filter (\<lambda>e. \<bar>snd (snd e)\<bar> > 0) es)
          @ drop (i0 + 1 + length (filter (\<lambda>e. \<bar>snd (snd e)\<bar> > 0) es)) (irn[i0 := int (fst e) + 1]),
        take (i0 + 1) (jcn[i0 := int (fst (snd e)) + 1])
          @ map (\<lambda>e. int (fst (snd e)) + 1) (filter (\<lambda>e. \<bar>snd (snd e)\<bar> > 0) es)
          @ drop (i0 + 1 + length (filter (\<lambda>e. \<bar>snd (snd e)\<bar> > 0) es))
              (jcn[i0 := int (fst (snd e)) + 1]))"
      using Cons.prems True by (intro Cons.IH) simp_all
    show ?thesis
      using True step ih t [OF Cons.prems(1)] t [OF Cons.prems(2)] t [OF Cons.prems(3)]
      by simp
  qed
qed

lemma initialize_matrix_arrays:
  assumes "initialize_called s = False"
  shows "\<exists>s'. initialize_matrix 0 matrix s = Inr s'
      \<and> initialize_called s' = True
      \<and> id_n s' = matrix_n matrix
      \<and> id_nz s' = length (kept_entries matrix)
      \<and> id_a s' = map (\<lambda>e. snd (snd e)) (kept_entries matrix)
      \<and> id_irn s' = map (\<lambda>e. int (fst e) + 1) (kept_entries matrix)
      \<and> id_jcn s' = map (\<lambda>e. int (fst (snd e)) + 1) (kept_entries matrix)"
proof -
  let ?nz = "n_actually_nonzero_elements matrix"
  have l: "length (filter (\<lambda>e. \<bar>snd (snd e)\<bar> > 0) (entries_with_rows matrix)) = ?nz"
    using length_kept_entries [of matrix] by (simp add: kept_entries_def)
  have "fold (\<lambda>row st. fold (mumps_copy_entry row) (row_entries matrix ! row) st)
          [0..<matrix_m matrix] (0, replicate ?nz 0, replicate ?nz 0, replicate ?nz 0)
      = fold (\<lambda>e. mumps_copy_entry (fst e) (snd e)) (entries_with_rows matrix)
          (0, replicate ?nz 0, replicate ?nz 0, replicate ?nz 0)"
    by (rule nested_fold_entries)
  also have "\<dots> = (?nz, map (\<lambda>e. snd (snd e)) (kept_entries matrix),
        map (\<lambda>e. int (fst e) + 1) (kept_entries matrix),
        map (\<lambda>e. int (fst (snd e)) + 1) (kept_entries matrix))"
    using mumps_copy_fold [of "replicate ?nz 0" ?nz "replicate ?nz 0" "replicate ?nz 0" 0
        "entries_with_rows matrix"] l
    by (simp add: kept_entries_def)
  finally show ?thesis
    using assms length_kept_entries [of matrix]
    by (simp add: initialize_matrix_def Assert_def Let_def)
qed

text \<open>
  C10. On process \<open>0\<close> and for a solver that has not been initialized,
  \<open>SparseDirectMUMPS::initialize_matrix\<close> returns without a failed assertion; the arrays
  \<open>a\<close>, \<open>irn\<close>, \<open>jcn\<close> hold the value, the row index plus one and the column index plus
  one of exactly the stored entries whose value is not zero, in the order of the rows and
  within a row in the order of the iterators, and \<open>nz\<close> is their number. The copy in
  \<open>SparseDirectUMFPACK::factorize\<close> puts the values of all stored entries into \<open>Ax\<close>,
  zeros included.
\<close>

theorem initialize_matrix_keeps_nonzero_entries:
  assumes "initialize_called s = False"
  shows "(\<exists>s'. initialize_matrix 0 matrix s = Inr s'
            \<and> id_nz s' = length (kept_entries matrix)
            \<and> id_a s' = map (\<lambda>e. snd (snd e)) (kept_entries matrix)
            \<and> id_irn s' = map (\<lambda>e. int (fst e) + 1) (kept_entries matrix)
            \<and> id_jcn s' = map (\<lambda>e. int (fst (snd e)) + 1) (kept_entries matrix))
       \<and> kept_entries matrix = filter (\<lambda>e. snd (snd e) \<noteq> 0) (entries_with_rows matrix)
       \<and> map snd (entries_with_rows matrix) = concat (row_entries matrix)
       \<and> (\<exists>row_pointers u.
             copy_elements matrix
               (Ap (factorize_fill_row_starts matrix), factorize_fill_row_starts matrix)
               = (row_pointers, u)
           \<and> Ax u = map snd (concat (row_entries matrix)))"
proof -
  from initialize_matrix_arrays [OF assms, of matrix]
  have a: "\<exists>s'. initialize_matrix 0 matrix s = Inr s'
            \<and> id_nz s' = length (kept_entries matrix)
            \<and> id_a s' = map (\<lambda>e. snd (snd e)) (kept_entries matrix)
            \<and> id_irn s' = map (\<lambda>e. int (fst e) + 1) (kept_entries matrix)
            \<and> id_jcn s' = map (\<lambda>e. int (fst (snd e)) + 1) (kept_entries matrix)"
    by blast
  have b: "kept_entries matrix = filter (\<lambda>e. snd (snd e) \<noteq> 0) (entries_with_rows matrix)"
    by (simp add: kept_entries_def)
  from copy_elements_result [of matrix] obtain rp u where
    cp: "copy_elements matrix
               (Ap (factorize_fill_row_starts matrix), factorize_fill_row_starts matrix)
               = (rp, u)"
    and li: "length (Ai u) = n_nonzero_elements matrix"
    and lx: "length (Ax u) = n_nonzero_elements matrix"
    and ent: "entries_of u = map matrix_entry (concat (row_entries matrix))"
    by blast
  have "map snd (entries_of u) = Ax u"
    using li lx by (simp add: entries_of_def)
  then have "Ax u = map snd (concat (row_entries matrix))"
    using ent by (simp add: matrix_entry_def comp_def)
  then show ?thesis using a b cp map_snd_entries_with_rows [of matrix] by blast
qed

lemma upt_0_2: "[0..<2] = [0, 1::nat]"
  by (simp add: eval_nat_numeral upt_rec)

lemma example_kept:
  "entries_with_rows example_matrix_with_zero = [(0, 0, 5), (0, 1, 0), (1, 1, 7)]"
  "kept_entries example_matrix_with_zero = [(0, 0, 5), (1, 1, 7)]"
proof -
  have m: "matrix_m example_matrix_with_zero = 2"
    by (simp add: matrix_m_def example_matrix_with_zero_def)
  show e: "entries_with_rows example_matrix_with_zero = [(0, 0, 5), (0, 1, 0), (1, 1, 7)]"
    unfolding entries_with_rows_def m upt_0_2 by (simp add: example_matrix_with_zero_def)
  show "kept_entries example_matrix_with_zero = [(0, 0, 5), (1, 1, 7)]"
    unfolding kept_entries_def e by simp
qed

theorem initialize_matrix_keeps_nonzero_entries_witness:
  "initialize_called example_mumps = False
   \<and> kept_entries example_matrix_with_zero = [(0, 0, 5), (1, 1, 7)]
   \<and> (\<exists>s'. initialize_matrix 0 example_matrix_with_zero example_mumps = Inr s'
          \<and> id_nz s' = 2 \<and> id_a s' = [5, 7] \<and> id_irn s' = [1, 2] \<and> id_jcn s' = [1, 2])
   \<and> (\<exists>row_pointers u.
         copy_elements example_matrix_with_zero
           (Ap (factorize_fill_row_starts example_matrix_with_zero),
            factorize_fill_row_starts example_matrix_with_zero) = (row_pointers, u)
       \<and> Ax u = [5, 0, 7])"
proof -
  have h: "initialize_called example_mumps = False" by (simp add: example_mumps_def)
  have c: "concat (row_entries example_matrix_with_zero) = [(0, 5), (1, 0), (1, 7)]"
    by (simp add: example_matrix_with_zero_def)
  from initialize_matrix_keeps_nonzero_entries [OF h, of example_matrix_with_zero]
  show ?thesis using h by (simp add: example_kept c eval_nat_numeral)
qed

end
